theory Spec2Isabelle
  imports Complex_Main "HOL-Library.Sublist" "HOL-Library.Multiset"
begin

section \<open>Python values, objects and the processor state\<close>

text \<open>
  The module \<^verbatim>\<open>rag_processor.py\<close> works on JSON-shaped data: a company is a \<^verbatim>\<open>dict\<close>
  whose values are arbitrary JSON values. A Python \<^verbatim>\<open>str\<close> is modelled as a \<^typ>\<open>string\<close> holding
  its UTF-8 bytes, a Python \<^verbatim>\<open>float\<close> as a \<^typ>\<open>real\<close> (rounding is not modelled), a JSON
  object nested inside a value as an association list in insertion order.
\<close>

datatype error = ValueError | TypeError | KeyError | AttributeError | JSONDecodeError | APIError

datatype pyval =
    PNone
  | PBool bool
  | PInt int
  | PFloat real
  | PStr string
  | PList "pyval list"
  | PDict "(string \<times> pyval) list"

type_synonym pydict = "string \<Rightarrow> pyval option"

type_synonym addr = nat

text \<open>
  Dictionaries are mutable objects that the code copies (\<^verbatim>\<open>company.copy()\<close>) and updates in
  place, so they live in a store: \<open>heap\<close> is the list of all dict objects allocated so far and an
  address is an index into it. \<open>companies\<close> and \<open>enriched_companies\<close> are the two list attributes of
  \<^verbatim>\<open>RAGProcessor\<close> (lines 25-26); they hold references. \<open>world\<close> is the state of the remote service,
  which every call to the OpenAI client may observe and change.
\<close>

record 'w pystate =
  world :: 'w
  heap :: "pydict list"
  companies :: "addr list"
  enriched_companies :: "addr list"

text \<open>
  What the module calls but does not define. \<open>chat_completion\<close> stands for
  \<^verbatim>\<open>self.client.chat.completions.create(model="gpt-4", ...)\<close> followed by
  \<^verbatim>\<open>.choices[0].message.content\<close>, \<open>embeddings_create\<close> for
  \<^verbatim>\<open>self.client.embeddings.create(model="text-embedding-3-small", input=text)\<close> followed by
  \<^verbatim>\<open>.data[0].embedding\<close>; \<open>Inl\<close> is any exception raised on the way. \<open>json_loads\<close> is
  \<^verbatim>\<open>json.loads\<close>, \<open>py_repr\<close> is what an f-string prints for a value that is not a \<^verbatim>\<open>str\<close>,
  \<open>py_strip\<close> is \<^verbatim>\<open>str.strip\<close>.
\<close>

record 'w env =
  chat_completion :: "string \<Rightarrow> 'w \<Rightarrow> (error + string) \<times> 'w"
  embeddings_create :: "pyval \<Rightarrow> 'w \<Rightarrow> (error + real list) \<times> 'w"
  json_loads :: "string \<Rightarrow> error + pyval"
  py_repr :: "pyval \<Rightarrow> string"
  py_strip :: "string \<Rightarrow> string"

subsection \<open>Operations on dict objects\<close>

definition dict_copy :: "addr \<Rightarrow> 'w pystate \<Rightarrow> addr \<times> 'w pystate" where
  "dict_copy a s = (length (heap s), s\<lparr>heap := heap s @ [heap s ! a]\<rparr>)"

definition dict_set :: "addr \<Rightarrow> string \<Rightarrow> pyval \<Rightarrow> 'w pystate \<Rightarrow> 'w pystate" where
  "dict_set a k v s = s\<lparr>heap := (heap s)[a := (heap s ! a)(k \<mapsto> v)]\<rparr>"

definition update_items :: "pydict \<Rightarrow> (string \<times> pyval) list \<Rightarrow> pydict" where
  "update_items d items = fold (\<lambda>(k, v) m. m(k \<mapsto> v)) items d"

definition dict_update :: "addr \<Rightarrow> (string \<times> pyval) list \<Rightarrow> 'w pystate \<Rightarrow> 'w pystate" where
  "dict_update a items s = s\<lparr>heap := (heap s)[a := update_items (heap s ! a) items]\<rparr>"

definition dict_get :: "pydict \<Rightarrow> string \<Rightarrow> pyval \<Rightarrow> pyval" where
  "dict_get d k dflt = (case d k of None \<Rightarrow> dflt | Some v \<Rightarrow> v)"

text \<open>\<^verbatim>\<open>ai_data.get(k, dflt)\<close> on the parsed JSON object.\<close>

definition items_get :: "(string \<times> pyval) list \<Rightarrow> string \<Rightarrow> pyval \<Rightarrow> pyval" where
  "items_get items k dflt = dict_get (update_items Map.empty items) k dflt"

subsection \<open>Strings\<close>

definition nl :: string where
  "nl = [CHR 0x0A]"

definition fmt :: "'w env \<Rightarrow> pyval \<Rightarrow> string" where
  "fmt rt v = (case v of PStr t \<Rightarrow> t | _ \<Rightarrow> py_repr rt v)"

text \<open>The code points of a string: a UTF-8 continuation byte belongs to the byte before it.\<close>

definition utf8_chars :: "string \<Rightarrow> string list" where
  "utf8_chars t =
     fold (\<lambda>c acc. if 128 \<le> (of_char c :: nat) \<and> (of_char c :: nat) < 192 \<and> acc \<noteq> []
                    then butlast acc @ [last acc @ [c]] else acc @ [[c]]) t []"

fun join :: "string \<Rightarrow> string list \<Rightarrow> string" where
  "join sep [] = []"
| "join sep [x] = x"
| "join sep (x # y # ys) = x @ sep @ join sep (y # ys)"

fun is_str :: "pyval \<Rightarrow> bool" where
  "is_str (PStr t) = True"
| "is_str _ = False"

text \<open>
  \<^verbatim>\<open>' '.join(v)\<close>: \<open>v\<close> must be iterable and yield only strings. A list is joined by its
  items, a string by its characters, a dict by its keys; anything else is a \<^verbatim>\<open>TypeError\<close>.
\<close>

fun str_of :: "pyval \<Rightarrow> string" where
  "str_of (PStr t) = t"
| "str_of _ = []"

definition py_join :: "string \<Rightarrow> pyval \<Rightarrow> error + string" where
  "py_join sep v =
     (case v of
        PList xs \<Rightarrow> if list_all is_str xs then Inr (join sep (map str_of xs)) else Inl TypeError
      | PStr t \<Rightarrow> Inr (join sep (utf8_chars t))
      | PDict items \<Rightarrow> Inr (join sep (map fst items))
      | _ \<Rightarrow> Inl TypeError)"

section \<open>\<^verbatim>\<open>enrich_company_description\<close> (lines 44-123)\<close>

definition company_context :: "'w env \<Rightarrow> pydict \<Rightarrow> string" where
  \<open>company_context rt company =
     nl @ ''Company Name: '' @ fmt rt (dict_get company ''companyName'' (PStr ''Unknown'')) @ nl
     @ ''Type: '' @ fmt rt (dict_get company ''companyType'' (PStr ''Unknown'')) @ nl
     @ ''Region: '' @ fmt rt (dict_get company ''region'' (PStr ''Unknown'')) @ nl
     @ ''Comment: '' @ fmt rt (dict_get company ''comment'' (PStr ''N/A'')) @ nl
     @ nl
     @ ''This is an Israeli company that may need architectural services.'' @ nl\<close>

definition prompt :: "'w env \<Rightarrow> pydict \<Rightarrow> string" where
  \<open>prompt rt company =
     ''Analyze this Israeli company for architectural opportunities:'' @ nl
     @ nl
     @ company_context rt company @ nl
     @ nl
     @ ''Based on the company type and context, provide a detailed analysis in Hebrew including:'' @ nl
     @ nl
     @ ''1. What types of architectural projects they likely need'' @ nl
     @ ''2. Specializations that would be valuable for architects'' @ nl
     @ ''3. Project complexity and typical scale'' @ nl
     @ ''4. Current trends affecting this sector in Israel'' @ nl
     @ ''5. How architects typically collaborate with this type of organization'' @ nl
     @ nl
     @ ''Please respond with a JSON object in the following format:'' @ nl
     @ ''{'' @ nl
     @ ''  "aiDescription": "detailed Hebrew description of architectural opportunities",'' @ nl
     @ ''  "projectTypes": ["list", "of", "likely", "project", "types"],'' @ nl
     @ ''  "architectSpecialties": ["relevant", "architectural", "specializations"],'' @ nl
     @ ''  "complexity": "low/medium/high",'' @ nl
     @ ''  "typicalScale": "small/medium/large",'' @ nl
     @ ''  "collaborationStyle": "typical approach for working with this organization",'' @ nl
     @ ''  "marketTrends": "current relevant trends in Israeli market"'' @ nl
     @ ''}'' @ nl
     @ nl
     @ ''Ensure all text is in Hebrew and relevant to the Israeli architectural market.''\<close>

definition indent :: string where
  "indent = replicate 12 (CHR '' '')"

text \<open>
  The f-string of lines 97-106, before \<^verbatim>\<open>.strip()\<close>. The two \<^verbatim>\<open>join\<close> calls are the only
  parts of it that can raise.
\<close>

definition searchable_text :: "'w env \<Rightarrow> pydict \<Rightarrow> (string \<times> pyval) list \<Rightarrow> error + string" where
  "searchable_text rt company ai_data =
     (case py_join '' '' (items_get ai_data ''projectTypes'' (PList [])) of
        Inl e \<Rightarrow> Inl e
      | Inr project_types \<Rightarrow>
          (case py_join '' '' (items_get ai_data ''architectSpecialties'' (PList [])) of
             Inl e \<Rightarrow> Inl e
           | Inr specialties \<Rightarrow>
               Inr (nl @ indent @ fmt rt (dict_get company ''companyName'' (PStr [])) @ nl
                    @ indent @ fmt rt (dict_get company ''companyType'' (PStr [])) @ nl
                    @ indent @ fmt rt (dict_get company ''region'' (PStr [])) @ nl
                    @ indent @ fmt rt (items_get ai_data ''aiDescription'' (PStr [])) @ nl
                    @ indent @ project_types @ nl
                    @ indent @ specialties @ nl
                    @ indent @ fmt rt (items_get ai_data ''collaborationStyle'' (PStr [])) @ nl
                    @ indent @ fmt rt (items_get ai_data ''marketTrends'' (PStr [])) @ nl
                    @ indent)))"

text \<open>The Hebrew literals of line 116, as UTF-8.\<close>

definition company_of_type :: string where
  "company_of_type =
     [CHR 0xD7, CHR 0x97, CHR 0xD7, CHR 0x91, CHR 0xD7, CHR 0xA8, CHR 0xD7, CHR 0x94, CHR 0x20,
      CHR 0xD7, CHR 0x9E, CHR 0xD7, CHR 0xA1, CHR 0xD7, CHR 0x95, CHR 0xD7, CHR 0x92, CHR 0x20]"

definition located_in :: string where
  "located_in =
     [CHR 0x20, CHR 0xD7, CHR 0x94, CHR 0xD7, CHR 0x9E, CHR 0xD7, CHR 0x9E, CHR 0xD7, CHR 0x95,
      CHR 0xD7, CHR 0xA7, CHR 0xD7, CHR 0x9E, CHR 0xD7, CHR 0xAA, CHR 0x20, CHR 0xD7, CHR 0x91]"

definition not_known :: string where
  "not_known =
     [CHR 0xD7, CHR 0x9C, CHR 0xD7, CHR 0x90, CHR 0x20,
      CHR 0xD7, CHR 0x99, CHR 0xD7, CHR 0x93, CHR 0xD7, CHR 0x95, CHR 0xD7, CHR 0xA2]"

definition fallback_description :: "'w env \<Rightarrow> pydict \<Rightarrow> string" where
  "fallback_description rt company =
     company_of_type @ fmt rt (dict_get company ''companyType'' (PStr not_known))
     @ located_in @ fmt rt (dict_get company ''region'' (PStr not_known))"

definition fallback_searchable_text :: "'w env \<Rightarrow> pydict \<Rightarrow> string" where
  "fallback_searchable_text rt company =
     fmt rt (dict_get company ''companyName'' (PStr [])) @ '' ''
     @ fmt rt (dict_get company ''companyType'' (PStr [])) @ '' ''
     @ fmt rt (dict_get company ''region'' (PStr []))"

text \<open>The dict literal of lines 115-122.\<close>

definition fallback_fields :: "'w env \<Rightarrow> pydict \<Rightarrow> (string \<times> pyval) list" where
  "fallback_fields rt company =
     [(''aiDescription'', PStr (fallback_description rt company)),
      (''projectTypes'', PList []),
      (''architectSpecialties'', PList []),
      (''complexity'', PStr ''medium''),
      (''typicalScale'', PStr ''medium''),
      (''searchableText'', PStr (fallback_searchable_text rt company))]"

text \<open>The \<^verbatim>\<open>except\<close> branch, lines 111-123.\<close>

definition enrich_fallback :: "'w env \<Rightarrow> addr \<Rightarrow> 'w pystate \<Rightarrow> addr \<times> 'w pystate" where
  "enrich_fallback rt company s =
     (let (enhanced_company, s1) = dict_copy company s
      in (enhanced_company, dict_update enhanced_company (fallback_fields rt (heap s1 ! company)) s1))"

text \<open>
  The whole method. Every exit of the \<^verbatim>\<open>try\<close> block by an exception leads to the
  \<^verbatim>\<open>except\<close> branch: the client raises, \<^verbatim>\<open>json.loads\<close> raises, the parsed value is not a
  JSON object (then \<^verbatim>\<open>update\<close> or, at the latest, \<^verbatim>\<open>ai_data.get\<close> raises), or a \<^verbatim>\<open>join\<close>
  raises. The copy made at line 93 is then abandoned; it stays in the store, unreachable.
\<close>

definition enrich_company_description :: "'w env \<Rightarrow> addr \<Rightarrow> 'w pystate \<Rightarrow> addr \<times> 'w pystate" where
  "enrich_company_description rt company s =
     (case chat_completion rt (prompt rt (heap s ! company)) (world s) of
        (Inl e, w) \<Rightarrow> enrich_fallback rt company (s\<lparr>world := w\<rparr>)
      | (Inr content, w) \<Rightarrow>
          (case json_loads rt content of
             Inl e \<Rightarrow> enrich_fallback rt company (s\<lparr>world := w\<rparr>)
           | Inr ai_data \<Rightarrow>
               (let (enhanced_company, s1) = dict_copy company (s\<lparr>world := w\<rparr>)
                in case ai_data of
                     PDict items \<Rightarrow>
                       (let s2 = dict_update enhanced_company items s1
                        in case searchable_text rt (heap s2 ! company) items of
                             Inl e \<Rightarrow> enrich_fallback rt company s2
                           | Inr text \<Rightarrow>
                               (enhanced_company,
                                dict_set enhanced_company ''searchableText''
                                  (PStr (py_strip rt text)) s2))
                   | _ \<Rightarrow> enrich_fallback rt company s1)))"

text \<open>
  The same method seen from the record's contents alone: what the \<^verbatim>\<open>try\<close> block yields for a
  company with fields \<open>company\<close> when the service is in state \<open>w\<close>, and the fields of the dict
  the method returns.
\<close>

definition enrichment_response ::
  "'w env \<Rightarrow> pydict \<Rightarrow> 'w \<Rightarrow> (error + (string \<times> pyval) list \<times> string) \<times> 'w" where
  "enrichment_response rt company w =
     (case chat_completion rt (prompt rt company) w of
        (Inl e, w') \<Rightarrow> (Inl e, w')
      | (Inr content, w') \<Rightarrow>
          (case json_loads rt content of
             Inl e \<Rightarrow> (Inl e, w')
           | Inr (PDict items) \<Rightarrow>
               (case searchable_text rt company items of
                  Inl e \<Rightarrow> (Inl e, w')
                | Inr text \<Rightarrow> (Inr (items, py_strip rt text), w'))
           | Inr _ \<Rightarrow> (Inl AttributeError, w')))"

definition enriched_fields :: "'w env \<Rightarrow> pydict \<Rightarrow> 'w \<Rightarrow> pydict \<times> 'w" where
  "enriched_fields rt company w =
     (case enrichment_response rt company w of
        (Inl e, w') \<Rightarrow> (update_items company (fallback_fields rt company), w')
      | (Inr (items, text), w') \<Rightarrow>
          ((update_items company items)(''searchableText'' \<mapsto> PStr text), w'))"

section \<open>\<^verbatim>\<open>generate_embedding\<close> (lines 125-136)\<close>

definition generate_embedding :: "'w env \<Rightarrow> pyval \<Rightarrow> 'w pystate \<Rightarrow> real list \<times> 'w pystate" where
  "generate_embedding rt text s =
     (case embeddings_create rt text (world s) of
        (Inl e, w) \<Rightarrow> (replicate 1536 0, s\<lparr>world := w\<rparr>)
      | (Inr embedding, w) \<Rightarrow> (embedding, s\<lparr>world := w\<rparr>))"

section \<open>\<^verbatim>\<open>batch_enrich_companies\<close> (lines 138-170)\<close>

definition embedding_value :: "real list \<Rightarrow> pyval" where
  "embedding_value v = PList (map PFloat v)"

text \<open>The \<^verbatim>\<open>except\<close> branch of the loop body, lines 160-165.\<close>

definition add_without_enhancements :: "addr \<Rightarrow> 'w pystate \<Rightarrow> 'w pystate" where
  "add_without_enhancements company s =
     (let (fallback_company, s1) = dict_copy company s;
          s2 = dict_set fallback_company ''embedding'' (embedding_value (replicate 1536 0)) s1
      in s2\<lparr>enriched_companies := enriched_companies s2 @ [fallback_company]\<rparr>)"

text \<open>
  The loop body, lines 147-165, for any two methods in the place of
  \<^verbatim>\<open>self.enrich_company_description\<close> and \<^verbatim>\<open>self.generate_embedding\<close>: either may raise
  (\<open>Inl\<close>), and \<^verbatim>\<open>enhanced_company['searchableText']\<close> raises \<^verbatim>\<open>KeyError\<close> when the key is
  missing. The two \<^verbatim>\<open>time.sleep\<close> calls and the logging change nothing in the state and are
  left out.
\<close>

definition process_company ::
  "(addr \<Rightarrow> 'w pystate \<Rightarrow> (error + addr) \<times> 'w pystate) \<Rightarrow>
   (pyval \<Rightarrow> 'w pystate \<Rightarrow> (error + real list) \<times> 'w pystate) \<Rightarrow>
   addr \<Rightarrow> 'w pystate \<Rightarrow> 'w pystate" where
  "process_company enrich embedder company s =
     (case enrich company s of
        (Inl e, s1) \<Rightarrow> add_without_enhancements company s1
      | (Inr enhanced_company, s1) \<Rightarrow>
          (case (heap s1 ! enhanced_company) ''searchableText'' of
             None \<Rightarrow> add_without_enhancements company s1
           | Some text \<Rightarrow>
               (case embedder text s1 of
                  (Inl e, s2) \<Rightarrow> add_without_enhancements company s2
                | (Inr embedding, s2) \<Rightarrow>
                    (let s3 = dict_set enhanced_company ''embedding'' (embedding_value embedding) s2
                     in s3\<lparr>enriched_companies := enriched_companies s3 @ [enhanced_company]\<rparr>))))"

function range_from :: "nat \<Rightarrow> nat \<Rightarrow> nat \<Rightarrow> nat list" where
  "range_from i stop step = (if i < stop \<and> 0 < step then i # range_from (i + step) stop step else [])"
  by pat_completeness auto
termination
  by (relation "measure (\<lambda>(i, stop, step). stop - i)") auto

declare range_from.simps [simp del]

text \<open>\<^verbatim>\<open>range(0, stop, step)\<close> for \<open>stop \<ge> 0\<close>: a zero step raises, a negative step gives no index.\<close>

definition py_range :: "nat \<Rightarrow> int \<Rightarrow> error + nat list" where
  "py_range stop step =
     (if step = 0 then Inl ValueError
      else if 0 < step then Inr (range_from 0 stop (nat step))
      else Inr [])"

text \<open>\<^verbatim>\<open>xs[i:j]\<close> for \<open>0 \<le> i \<le> j\<close>.\<close>

definition slice :: "'a list \<Rightarrow> nat \<Rightarrow> nat \<Rightarrow> 'a list" where
  "slice xs i j = drop i (take j xs)"

definition batch_enrich_companies_with ::
  "(addr \<Rightarrow> 'w pystate \<Rightarrow> (error + addr) \<times> 'w pystate) \<Rightarrow>
   (pyval \<Rightarrow> 'w pystate \<Rightarrow> (error + real list) \<times> 'w pystate) \<Rightarrow>
   int \<Rightarrow> 'w pystate \<Rightarrow> error + 'w pystate" where
  "batch_enrich_companies_with enrich embedder batch_size s =
     (case py_range (length (companies s)) batch_size of
        Inl e \<Rightarrow> Inl e
      | Inr starts \<Rightarrow>
          Inr (fold (\<lambda>i s'. fold (process_company enrich embedder)
                                 (slice (companies s') i (i + nat batch_size)) s')
                    starts s))"

text \<open>The method itself: the loop with the two methods of the class, neither of which raises.\<close>

definition enrich_method :: "'w env \<Rightarrow> addr \<Rightarrow> 'w pystate \<Rightarrow> (error + addr) \<times> 'w pystate" where
  "enrich_method rt company s =
     (let (enhanced_company, s') = enrich_company_description rt company s in (Inr enhanced_company, s'))"

definition embed_method :: "'w env \<Rightarrow> pyval \<Rightarrow> 'w pystate \<Rightarrow> (error + real list) \<times> 'w pystate" where
  "embed_method rt text s =
     (let (embedding, s') = generate_embedding rt text s in (Inr embedding, s'))"

definition batch_enrich_companies :: "'w env \<Rightarrow> int \<Rightarrow> 'w pystate \<Rightarrow> error + 'w pystate" where
  "batch_enrich_companies rt batch_size s =
     batch_enrich_companies_with (enrich_method rt) (embed_method rt) batch_size s"

text \<open>
  The fields of the entry that one pass of the loop body appends for a company with fields
  \<open>company\<close>, when the service is in state \<open>w\<close>.
\<close>

definition embedding_for :: "'w env \<Rightarrow> pyval \<Rightarrow> 'w \<Rightarrow> real list \<times> 'w" where
  "embedding_for rt text w =
     (case embeddings_create rt text w of
        (Inl e, w') \<Rightarrow> (replicate 1536 0, w')
      | (Inr embedding, w') \<Rightarrow> (embedding, w'))"

definition processed_record :: "'w env \<Rightarrow> pydict \<Rightarrow> 'w \<Rightarrow> pydict \<times> 'w" where
  "processed_record rt company w =
     (let (enhanced, w1) = enriched_fields rt company w
      in case enhanced ''searchableText'' of
           None \<Rightarrow> (company(''embedding'' \<mapsto> embedding_value (replicate 1536 0)), w1)
         | Some text \<Rightarrow>
             (let (embedding, w2) = embedding_for rt text w1
              in (enhanced(''embedding'' \<mapsto> embedding_value embedding), w2)))"

text \<open>
  What the loop needs from the two methods it calls to treat the records one by one: a method
  leaves the two list attributes alone, allocates new objects without touching existing ones,
  and the dict an enrichment returns is a new one.
\<close>

definition respects_frame ::
  "(addr \<Rightarrow> 'w pystate \<Rightarrow> (error + addr) \<times> 'w pystate) \<Rightarrow>
   (pyval \<Rightarrow> 'w pystate \<Rightarrow> (error + real list) \<times> 'w pystate) \<Rightarrow> bool" where
  "respects_frame enrich embedder \<longleftrightarrow>
     (\<forall>c s r s'. c < length (heap s) \<longrightarrow> enrich c s = (r, s') \<longrightarrow>
        companies s' = companies s \<and> enriched_companies s' = enriched_companies s \<and>
        prefix (heap s) (heap s') \<and>
        (\<forall>a. r = Inr a \<longrightarrow> length (heap s) \<le> a \<and> a < length (heap s'))) \<and>
     (\<forall>t s r s'. embedder t s = (r, s') \<longrightarrow>
        companies s' = companies s \<and> enriched_companies s' = enriched_companies s \<and>
        prefix (heap s) (heap s'))"

text \<open>
  Entry \<open>b\<close> of the final state \<open>s'\<close> was appended by the loop body for company \<open>c\<close>, in some
  state \<open>s0\<close> reached from \<open>s\<close>, and has not been touched since.
\<close>

definition entry_of ::
  "(addr \<Rightarrow> 'w pystate \<Rightarrow> 'w pystate) \<Rightarrow> 'w pystate \<Rightarrow> 'w pystate \<Rightarrow> addr \<Rightarrow> addr \<Rightarrow> bool" where
  "entry_of step s s' c b \<longleftrightarrow>
     (\<exists>s0. c < length (heap s) \<and> prefix (heap s) (heap s0) \<and>
           enriched_companies (step c s0) = enriched_companies s0 @ [b] \<and>
           b < length (heap (step c s0)) \<and> prefix (heap (step c s0)) (heap s'))"

section \<open>\<^verbatim>\<open>semantic_search\<close> (lines 172-200)\<close>

subsection \<open>\<^verbatim>\<open>sklearn.metrics.pairwise.cosine_similarity\<close>\<close>

text \<open>
  The library normalises every row to unit Euclidean length, leaving a row of norm zero as it
  is, and returns the dot products. It raises \<^verbatim>\<open>ValueError\<close> unless both arguments are
  rectangular arrays of numbers with the same, non-zero number of columns.
\<close>

fun as_number :: "pyval \<Rightarrow> real option" where
  "as_number (PFloat x) = Some x"
| "as_number (PInt i) = Some (of_int i)"
| "as_number (PBool b) = Some (if b then 1 else 0)"
| "as_number _ = None"

fun as_row :: "pyval \<Rightarrow> real list option" where
  "as_row (PList xs) = those (map as_number xs)"
| "as_row _ = None"

definition l2_norm :: "real list \<Rightarrow> real" where
  "l2_norm v = sqrt (sum_list (map (\<lambda>x. x * x) v))"

definition normalize_row :: "real list \<Rightarrow> real list" where
  "normalize_row v = (let n = l2_norm v in map (\<lambda>x. x / (if n = 0 then 1 else n)) v)"

definition dot :: "real list \<Rightarrow> real list \<Rightarrow> real" where
  "dot a b = sum_list (map (\<lambda>(x, y). x * y) (zip a b))"

definition cosine_row :: "real list \<Rightarrow> real list \<Rightarrow> real" where
  "cosine_row q e = dot (normalize_row q) (normalize_row e)"

text \<open>\<^verbatim>\<open>cosine_similarity([query_embedding], company_embeddings)[0]\<close>, line 184.\<close>

definition cosine_similarity :: "real list \<Rightarrow> pyval list \<Rightarrow> error + real list" where
  "cosine_similarity q company_embeddings =
     (case those (map as_row company_embeddings) of
        None \<Rightarrow> Inl ValueError
      | Some rows \<Rightarrow>
          if rows \<noteq> [] \<and> q \<noteq> [] \<and> list_all (\<lambda>e. length e = length q) rows
          then Inr (map (cosine_row q) rows)
          else Inl ValueError)"

subsection \<open>The search\<close>

text \<open>The body of the loop of lines 188-192; \<open>thr\<close> stands for the literal \<^verbatim>\<open>0.3\<close>.\<close>

definition collect_result ::
  "real \<Rightarrow> real list \<Rightarrow> nat \<times> addr \<Rightarrow> addr list \<times> 'w pystate \<Rightarrow> addr list \<times> 'w pystate" where
  "collect_result thr similarities =
     (\<lambda>(i, company) (results, s).
        if similarities ! i > thr
        then (let (company_with_score, s1) = dict_copy company s;
                  s2 = dict_set company_with_score ''similarity_score'' (PFloat (similarities ! i)) s1
              in (results @ [company_with_score], s2))
        else (results, s))"

text \<open>The sort key \<^verbatim>\<open>x['similarity_score']\<close>; a missing key or a value that is no number raises.\<close>

definition score_key :: "'w pystate \<Rightarrow> addr \<Rightarrow> real option" where
  "score_key s x =
     (case (heap s ! x) ''similarity_score'' of None \<Rightarrow> None | Some v \<Rightarrow> as_number v)"

text \<open>
  \<^verbatim>\<open>list.sort(key=..., reverse=True)\<close> on keys computed beforehand: a stable sort, elements with
  equal keys keep their order also when reversed.
\<close>

definition sort_reverse :: "real list \<Rightarrow> 'a list \<Rightarrow> 'a list" where
  "sort_reverse keys xs = map snd (sort_key (\<lambda>(k, x). - k) (zip keys xs))"

text \<open>\<^verbatim>\<open>xs[:k]\<close>; a negative \<open>k\<close> counts from the end.\<close>

definition slice_to :: "'a list \<Rightarrow> int \<Rightarrow> 'a list" where
  "slice_to xs k = (if 0 \<le> k then take (nat k) xs else take (nat (int (length xs) + k)) xs)"

text \<open>The first half of the \<^verbatim>\<open>try\<close> block, lines 179-184.\<close>

definition calculate_similarities ::
  "'w env \<Rightarrow> string \<Rightarrow> 'w pystate \<Rightarrow> (error + real list) \<times> 'w pystate" where
  "calculate_similarities rt query s =
     (let (query_embedding, s1) = generate_embedding rt (PStr query) s
      in case those (map (\<lambda>comp. (heap s1 ! comp) ''embedding'') (enriched_companies s1)) of
           None \<Rightarrow> (Inl KeyError, s1)
         | Some company_embeddings \<Rightarrow>
             (case cosine_similarity query_embedding company_embeddings of
                Inl e \<Rightarrow> (Inl e, s1)
              | Inr similarities \<Rightarrow> (Inr similarities, s1)))"

text \<open>The second half, lines 186-196.\<close>

definition rank_results ::
  "real \<Rightarrow> real list \<Rightarrow> int \<Rightarrow> 'w pystate \<Rightarrow> (error + addr list) \<times> 'w pystate" where
  "rank_results thr similarities top_k s1 =
     (let (results, s2) = fold (collect_result thr similarities)
                               (enumerate 0 (enriched_companies s1)) ([], s1)
      in case those (map (score_key s2) results) of
           None \<Rightarrow> (Inl KeyError, s2)
         | Some keys \<Rightarrow> (Inr (slice_to (sort_reverse keys results) top_k), s2))"

definition semantic_search_try ::
  "real \<Rightarrow> 'w env \<Rightarrow> string \<Rightarrow> int \<Rightarrow> 'w pystate \<Rightarrow> (error + addr list) \<times> 'w pystate" where
  "semantic_search_try thr rt query top_k s =
     (case calculate_similarities rt query s of
        (Inl e, s1) \<Rightarrow> (Inl e, s1)
      | (Inr similarities, s1) \<Rightarrow> rank_results thr similarities top_k s1)"

text \<open>
  The method, with the relevance threshold of line 189 as a parameter. \<open>Inr\<close> is a returned
  list of results, \<open>Inl\<close> would be an exception that reaches the caller.
\<close>

definition semantic_search_threshold ::
  "real \<Rightarrow> 'w env \<Rightarrow> string \<Rightarrow> int \<Rightarrow> 'w pystate \<Rightarrow> (error + addr list) \<times> 'w pystate" where
  "semantic_search_threshold thr rt query top_k s =
     (if enriched_companies s = [] then (Inr [], s)
      else case semantic_search_try thr rt query top_k s of
             (Inl e, s') \<Rightarrow> (Inr [], s')
           | (Inr results, s') \<Rightarrow> (Inr results, s'))"

text \<open>The method as the source has it: the threshold is \<^verbatim>\<open>0.3\<close>.\<close>

definition semantic_search ::
  "'w env \<Rightarrow> string \<Rightarrow> int \<Rightarrow> 'w pystate \<Rightarrow> (error + addr list) \<times> 'w pystate" where
  "semantic_search rt query top_k s = semantic_search_threshold (3 / 10) rt query top_k s"

subsection \<open>Vocabulary for the results of a search\<close>

definition embedding_of :: "pydict \<Rightarrow> real list option" where
  "embedding_of d = (case d ''embedding'' of None \<Rightarrow> None | Some v \<Rightarrow> as_row v)"

definition similarity :: "real list \<Rightarrow> pydict \<Rightarrow> real" where
  "similarity q d = (case embedding_of d of None \<Rightarrow> 0 | Some e \<Rightarrow> cosine_row q e)"

definition score :: "pydict \<Rightarrow> real" where
  "score d =
     (case d ''similarity_score'' of
        None \<Rightarrow> 0
      | Some v \<Rightarrow> (case as_number v of None \<Rightarrow> 0 | Some x \<Rightarrow> x))"

definition with_score :: "real list \<Rightarrow> pydict \<Rightarrow> pydict" where
  "with_score q d = d(''similarity_score'' \<mapsto> PFloat (similarity q d))"

definition has_dimension :: "nat \<Rightarrow> pydict \<Rightarrow> bool" where
  "has_dimension n d = (case embedding_of d of None \<Rightarrow> False | Some e \<Rightarrow> length e = n)"

definition zero_embedding :: "pydict \<Rightarrow> bool" where
  "zero_embedding d = (case embedding_of d of None \<Rightarrow> False | Some e \<Rightarrow> list_all (\<lambda>x. x = 0) e)"

text \<open>The embedding that a search computes for its query.\<close>

definition query_embedding :: "'w env \<Rightarrow> string \<Rightarrow> 'w pystate \<Rightarrow> real list" where
  "query_embedding rt query s = fst (generate_embedding rt (PStr query) s)"

text \<open>
  The records of the collection whose similarity to \<open>q\<close> is above the threshold, in the order
  of the collection, each with its score attached.
\<close>

definition scored_matches :: "real \<Rightarrow> real list \<Rightarrow> 'w pystate \<Rightarrow> pydict list" where
  "scored_matches thr q s =
     map (with_score q)
       (filter (\<lambda>d. thr < similarity q d) (map (\<lambda>a. heap s ! a) (enriched_companies s)))"

section \<open>Sample services and states\<close>

text \<open>A service on which every call raises, and one on which every call succeeds.\<close>

definition failing_env :: "unit env" where
  "failing_env =
     \<lparr>chat_completion = (\<lambda>p w. (Inl APIError, w)),
      embeddings_create = (\<lambda>t w. (Inl APIError, w)),
      json_loads = (\<lambda>c. Inl JSONDecodeError),
      py_repr = (\<lambda>v. ''?''),
      py_strip = (\<lambda>t. t)\<rparr>"

definition sample_env :: "unit env" where
  "sample_env =
     \<lparr>chat_completion = (\<lambda>p w. (Inr ''{}'', w)),
      embeddings_create = (\<lambda>t w. (Inr (replicate 1536 1), w)),
      json_loads = (\<lambda>c. Inr (PDict [(''aiDescription'', PStr ''ok'')])),
      py_repr = (\<lambda>v. ''?''),
      py_strip = (\<lambda>t. t)\<rparr>"

text \<open>An enrichment method that always raises.\<close>

definition raising_enrich :: "addr \<Rightarrow> unit pystate \<Rightarrow> (error + addr) \<times> unit pystate" where
  "raising_enrich company s = (Inl APIError, s)"

text \<open>A processor that has loaded two companies and enriched none.\<close>

definition two_companies_state :: "unit pystate" where
  "two_companies_state =
     \<lparr>world = (),
      heap = [[''companyName'' \<mapsto> PStr ''A''], Map.empty],
      companies = [0, 1],
      enriched_companies = []\<rparr>"

text \<open>
  A service that embeds every query as \<open>(1, 0)\<close>, and a processor whose collection holds three
  records: one with the embedding of the query, one at similarity \<open>3/5\<close> to it, and one whose
  embedding is the zero vector.
\<close>

definition query_env :: "unit env" where
  "query_env =
     \<lparr>chat_completion = (\<lambda>p w. (Inl APIError, w)),
      embeddings_create = (\<lambda>t w. (Inr [1, 0], w)),
      json_loads = (\<lambda>c. Inl JSONDecodeError),
      py_repr = (\<lambda>v. ''?''),
      py_strip = (\<lambda>t. t)\<rparr>"

definition indexed_state :: "unit pystate" where
  "indexed_state =
     \<lparr>world = (),
      heap = [[''companyName'' \<mapsto> PStr ''A'', ''embedding'' \<mapsto> embedding_value [1, 0]],
              [''companyName'' \<mapsto> PStr ''B'', ''embedding'' \<mapsto> embedding_value [3 / 5, 4 / 5]],
              [''companyName'' \<mapsto> PStr ''C'', ''embedding'' \<mapsto> embedding_value [0, 0]]],
      companies = [],
      enriched_companies = [0, 1, 2]\<rparr>"


section \<open>Auxiliary facts\<close>

subsection \<open>Enrichment of one record\<close>

lemma enrich_fallback_eq:
  "company < length (heap s) \<Longrightarrow>
   enrich_fallback rt company s =
     (length (heap s),
      s\<lparr>heap := heap s @ [update_items (heap s ! company) (fallback_fields rt (heap s ! company))]\<rparr>)"
  by (simp add: enrich_fallback_def dict_copy_def dict_update_def nth_append)

lemma enrich_company_description_eq:
  assumes "company < length (heap s)"
  shows "\<exists>garbage. enrich_company_description rt company s =
     (length (heap s) + length garbage,
      s\<lparr>world := snd (enriched_fields rt (heap s ! company) (world s)),
        heap := heap s @ garbage @ [fst (enriched_fields rt (heap s ! company) (world s))]\<rparr>)"
proof (cases "chat_completion rt (prompt rt (heap s ! company)) (world s)")
  case (Pair r w)
  show ?thesis
  proof (cases r)
    case (Inl e)
    with Pair assms show ?thesis
      by (intro exI[of _ "[]"])
         (simp add: enrich_company_description_def enriched_fields_def enrichment_response_def
            enrich_fallback_eq)
  next
    case (Inr content)
    show ?thesis
    proof (cases "json_loads rt content")
      case (Inl e)
      with Pair Inr assms show ?thesis
        by (intro exI[of _ "[]"])
           (simp add: enrich_company_description_def enriched_fields_def enrichment_response_def
              enrich_fallback_eq)
    next
      case ai: (Inr ai_data)
      show ?thesis
      proof (cases "\<exists>items. ai_data = PDict items")
        case False
        with Pair Inr ai assms show ?thesis
          by (intro exI[of _ "[heap s ! company]"])
             (cases ai_data; simp add: enrich_company_description_def enriched_fields_def
                enrichment_response_def enrich_fallback_eq dict_copy_def nth_append)
      next
        case True
        then obtain items where items: "ai_data = PDict items" by blast
        show ?thesis
        proof (cases "searchable_text rt (heap s ! company) items")
          case (Inl e)
          with Pair Inr ai items assms show ?thesis
            by (intro exI[of _ "[update_items (heap s ! company) items]"])
               (simp add: enrich_company_description_def enriched_fields_def
                  enrichment_response_def enrich_fallback_eq dict_copy_def dict_update_def nth_append)
        next
          case ok: (Inr t)
          with Pair Inr ai items assms show ?thesis
            by (intro exI[of _ "[]"])
               (simp add: enrich_company_description_def enriched_fields_def
                  enrichment_response_def dict_copy_def dict_update_def dict_set_def nth_append)
        qed
      qed
    qed
  qed
qed

subsection \<open>The batch loop\<close>

lemma prefix_nth: "prefix xs ys \<Longrightarrow> i < length xs \<Longrightarrow> ys ! i = xs ! i"
  by (auto simp: prefix_def nth_append)

lemma add_without_enhancements_eq:
  "add_without_enhancements company s =
     s\<lparr>heap := heap s @ [(heap s ! company)(''embedding'' \<mapsto> embedding_value (replicate 1536 0))],
       enriched_companies := enriched_companies s @ [length (heap s)]\<rparr>"
  by (simp add: add_without_enhancements_def dict_copy_def dict_set_def)

lemma process_company_frame:
  assumes rf: "respects_frame enrich embedder" and c: "c < length (heap s)"
  shows "\<exists>b. companies (process_company enrich embedder c s) = companies s \<and>
             enriched_companies (process_company enrich embedder c s) = enriched_companies s @ [b] \<and>
             length (heap s) \<le> b \<and> b < length (heap (process_company enrich embedder c s)) \<and>
             prefix (heap s) (heap (process_company enrich embedder c s))" (is ?goal)
proof (cases "enrich c s")
  case (Pair r s1)
  with rf c have f1: "companies s1 = companies s" "enriched_companies s1 = enriched_companies s"
    "prefix (heap s) (heap s1)"
    and fresh: "\<And>a. r = Inr a \<Longrightarrow> length (heap s) \<le> a \<and> a < length (heap s1)"
    unfolding respects_frame_def by blast+
  have len1: "length (heap s) \<le> length (heap s1)"
    using f1(3) by (simp add: prefix_length_le)
  have fb: "\<And>s2. companies s2 = companies s \<Longrightarrow> enriched_companies s2 = enriched_companies s \<Longrightarrow>
      prefix (heap s) (heap s2) \<Longrightarrow> process_company enrich embedder c s = add_without_enhancements c s2
      \<Longrightarrow> ?goal"
  proof -
    fix s2
    assume a: "companies s2 = companies s" "enriched_companies s2 = enriched_companies s"
      "prefix (heap s) (heap s2)" "process_company enrich embedder c s = add_without_enhancements c s2"
    have "length (heap s) \<le> length (heap s2)" using a(3) by (simp add: prefix_length_le)
    moreover have "prefix (heap s) (heap s2 @ [(heap s2 ! c)(''embedding'' \<mapsto> embedding_value (replicate 1536 0))])"
      using a(3) by (auto simp: prefix_def)
    ultimately show ?goal
      using a by (intro exI[of _ "length (heap s2)"]) (simp add: add_without_enhancements_eq)
  qed
  show ?thesis
  proof (cases r)
    case (Inl e)
    with Pair have "process_company enrich embedder c s = add_without_enhancements c s1"
      by (simp add: process_company_def)
    with f1 show ?thesis by (rule fb)
  next
    case (Inr a)
    note a = fresh[OF Inr]
    show ?thesis
    proof (cases "(heap s1 ! a) ''searchableText''")
      case None
      with Pair Inr have "process_company enrich embedder c s = add_without_enhancements c s1"
        by (simp add: process_company_def)
      with f1 show ?thesis by (rule fb)
    next
      case (Some t)
      show ?thesis
      proof (cases "embedder t s1")
        case p2: (Pair r2 s2)
        with rf have f2: "companies s2 = companies s1" "enriched_companies s2 = enriched_companies s1"
          "prefix (heap s1) (heap s2)"
          unfolding respects_frame_def by blast+
        have pre2: "prefix (heap s) (heap s2)"
          using f1(3) f2(3) by (rule prefix_order.trans)
        show ?thesis
        proof (cases r2)
          case (Inl e)
          with Pair Inr Some p2
          have "process_company enrich embedder c s = add_without_enhancements c s2"
            by (simp add: process_company_def)
          with f1 f2 pre2 show ?thesis by (intro fb[of s2]) simp_all
        next
          case v: (Inr v)
          have eq: "process_company enrich embedder c s =
              s2\<lparr>heap := (heap s2)[a := (heap s2 ! a)(''embedding'' \<mapsto> embedding_value v)],
                 enriched_companies := enriched_companies s2 @ [a]\<rparr>"
            using Pair Inr Some p2 v by (simp add: process_company_def dict_set_def)
          have len2: "length (heap s1) \<le> length (heap s2)"
            using f2(3) by (simp add: prefix_length_le)
          obtain zs where zs: "heap s2 = heap s @ zs" using pre2 by (auto simp: prefix_def)
          have "prefix (heap s) ((heap s2)[a := (heap s2 ! a)(''embedding'' \<mapsto> embedding_value v)])"
            using a zs by (auto simp: list_update_append prefix_def)
          then show ?thesis
            using eq f1 f2 a len2 by (intro exI[of _ a]) simp
        qed
      qed
    qed
  qed
qed


lemma fold_process_company:
  assumes rf: "respects_frame enrich embedder"
  shows "\<forall>c\<in>set cs. c < length (heap s) \<Longrightarrow>
    \<exists>new. companies (fold (process_company enrich embedder) cs s) = companies s \<and>
          prefix (heap s) (heap (fold (process_company enrich embedder) cs s)) \<and>
          enriched_companies (fold (process_company enrich embedder) cs s) = enriched_companies s @ new \<and>
          list_all2 (entry_of (process_company enrich embedder) s
                       (fold (process_company enrich embedder) cs s)) cs new"
proof (induction cs arbitrary: s)
  case Nil
  then show ?case by simp
next
  case (Cons c cs)
  let ?P = "process_company enrich embedder"
  let ?s1 = "?P c s"
  let ?s' = "fold ?P cs ?s1"
  from Cons.prems have c: "c < length (heap s)" by simp
  from process_company_frame[OF rf c] obtain b where
    b: "companies ?s1 = companies s" "enriched_companies ?s1 = enriched_companies s @ [b]"
       "b < length (heap ?s1)" "prefix (heap s) (heap ?s1)"
    by blast
  have "\<forall>c\<in>set cs. c < length (heap ?s1)"
    using Cons.prems prefix_length_le[OF b(4)] by fastforce
  from Cons.IH[OF this] obtain new where
    new: "companies ?s' = companies ?s1" "prefix (heap ?s1) (heap ?s')"
         "enriched_companies ?s' = enriched_companies ?s1 @ new"
         "list_all2 (entry_of ?P ?s1 ?s') cs new"
    by blast
  have head: "entry_of ?P s ?s' c b"
    unfolding entry_of_def using b new(2) c by (intro exI[of _ s]) simp
  have tail: "list_all2 (entry_of ?P s ?s') cs new"
    unfolding list_all2_conv_all_nth
  proof (intro conjI allI impI)
    show "length cs = length new"
      using new(4) by (rule list_all2_lengthD)
  next
    fix i
    assume i: "i < length cs"
    then have "entry_of ?P ?s1 ?s' (cs ! i) (new ! i)"
      using new(4) by (simp add: list_all2_conv_all_nth)
    moreover have "cs ! i < length (heap s)"
      using Cons.prems i by simp
    ultimately show "entry_of ?P s ?s' (cs ! i) (new ! i)"
      unfolding entry_of_def using b(4) by (meson prefix_order.trans)
  qed
  have "prefix (heap s) (heap ?s')"
    using b(4) new(2) by (rule prefix_order.trans)
  then show ?case
    using b(1,2) new(1,3) head tail
    by (intro exI[of _ "b # new"]) simp
qed

lemma drop_slice: "drop i xs = slice xs i (i + b) @ drop (i + b) xs"
proof -
  have "slice xs i (i + b) = take b (drop i xs)"
    by (simp add: slice_def drop_take)
  moreover have "drop (i + b) xs = drop b (drop i xs)"
    by (simp add: add.commute)
  ultimately show ?thesis
    by (simp only: append_take_drop_id)
qed

lemma fold_batches:
  assumes keep: "\<And>xs s. \<forall>c\<in>set xs. c < length (heap s) \<Longrightarrow>
    companies (fold step xs s) = companies s \<and> length (heap s) \<le> length (heap (fold step xs s))"
  shows "0 < b \<Longrightarrow> n = length (companies s) \<Longrightarrow> \<forall>c\<in>set (companies s). c < length (heap s) \<Longrightarrow>
    fold (\<lambda>i s'. fold step (slice (companies s') i (i + b)) s') (range_from i n b) s =
    fold step (drop i (companies s)) s"
proof (induction i n b arbitrary: s rule: range_from.induct)
  case (1 i stop step')
  let ?F = "\<lambda>i s'. fold step (slice (companies s') i (i + step')) s'"
  show ?case
  proof (cases "i < stop \<and> 0 < step'")
    case True
    let ?s1 = "fold step (slice (companies s) i (i + step')) s"
    have "set (slice (companies s) i (i + step')) \<subseteq> set (companies s)"
      unfolding slice_def by (meson set_drop_subset set_take_subset subset_trans)
    then have "\<forall>c\<in>set (slice (companies s) i (i + step')). c < length (heap s)"
      using 1(4) by blast
    from keep[OF this] have k: "companies ?s1 = companies s" "length (heap s) \<le> length (heap ?s1)"
      by simp_all
    have stop: "stop = length (companies ?s1)" using 1(3) k by simp
    have wf1: "\<forall>c\<in>set (companies ?s1). c < length (heap ?s1)"
      using 1(4) k by fastforce
    have "range_from i stop step' = i # range_from (i + step') stop step'"
      using True by (subst range_from.simps) simp
    then have "fold ?F (range_from i stop step') s = fold ?F (range_from (i + step') stop step') ?s1"
      by simp
    also have "\<dots> = fold step (drop (i + step') (companies ?s1)) ?s1"
      using 1(1)[OF True 1(2) stop wf1] .
    also have "\<dots> = fold step (drop (i + step') (companies s)) ?s1"
      by (simp only: k)
    also have "\<dots> = fold step (slice (companies s) i (i + step') @ drop (i + step') (companies s)) s"
      by (simp only: fold_append comp_apply)
    also have "\<dots> = fold step (drop i (companies s)) s"
      by (simp only: drop_slice[symmetric])
    finally show ?thesis .
  next
    case False
    have "range_from i stop step' = []"
      using False by (subst range_from.simps) simp
    moreover have "drop i (companies s) = []"
      using False 1(2) 1(3) by simp
    ultimately show ?thesis by simp
  qed
qed

lemma batch_enrich_companies_with_eq:
  assumes rf: "respects_frame enrich embedder" and bs: "0 < batch_size"
    and wf: "\<forall>c\<in>set (companies s). c < length (heap s)"
  shows "batch_enrich_companies_with enrich embedder batch_size s =
    Inr (fold (process_company enrich embedder) (companies s) s)"
proof -
  have keep: "companies (fold (process_company enrich embedder) xs s) = companies s \<and>
      length (heap s) \<le> length (heap (fold (process_company enrich embedder) xs s))"
    if "\<forall>c\<in>set xs. c < length (heap s)" for xs and s :: "'a pystate"
  proof -
    from fold_process_company[OF rf that] obtain new where
      "companies (fold (process_company enrich embedder) xs s) = companies s"
      "prefix (heap s) (heap (fold (process_company enrich embedder) xs s))"
      by blast
    then show ?thesis by (simp add: prefix_length_le)
  qed
  have pos: "0 < nat batch_size" using bs by simp
  have "fold (\<lambda>i s'. fold (process_company enrich embedder)
                (slice (companies s') i (i + nat batch_size)) s')
          (range_from 0 (length (companies s)) (nat batch_size)) s =
        fold (process_company enrich embedder) (drop 0 (companies s)) s"
    using fold_batches[where step = "process_company enrich embedder" and b = "nat batch_size"
        and s = s and i = 0 and n = "length (companies s)", OF keep pos refl wf] .
  then show ?thesis
    using bs by (simp add: batch_enrich_companies_with_def py_range_def)
qed

subsection \<open>The two methods of the class in the loop\<close>

lemma generate_embedding_eq:
  "generate_embedding rt t s =
     (fst (embedding_for rt t (world s)), s\<lparr>world := snd (embedding_for rt t (world s))\<rparr>)"
  by (simp add: generate_embedding_def embedding_for_def split: prod.splits sum.splits)

lemma respects_frame_methods: "respects_frame (enrich_method rt) (embed_method rt)"
  unfolding respects_frame_def
proof (intro conjI allI impI)
  fix c r and s s' :: "'a pystate"
  assume c: "c < length (heap s)" and e: "enrich_method rt c s = (r, s')"
  from enrich_company_description_eq[OF c, of rt] obtain garbage where
    g: "enrich_company_description rt c s =
         (length (heap s) + length garbage,
          s\<lparr>world := snd (enriched_fields rt (heap s ! c) (world s)),
            heap := heap s @ garbage @ [fst (enriched_fields rt (heap s ! c) (world s))]\<rparr>)"
    by blast
  from e g have r: "r = Inr (length (heap s) + length garbage)"
    and s': "s' = s\<lparr>world := snd (enriched_fields rt (heap s ! c) (world s)),
            heap := heap s @ garbage @ [fst (enriched_fields rt (heap s ! c) (world s))]\<rparr>"
    by (simp_all add: enrich_method_def)
  show "companies s' = companies s" using s' by simp
  show "enriched_companies s' = enriched_companies s" using s' by simp
  show "prefix (heap s) (heap s')" using s' by simp
  show "\<And>a. r = Inr a \<Longrightarrow> length (heap s) \<le> a" using r by simp
  show "\<And>a. r = Inr a \<Longrightarrow> a < length (heap s')" using r s' by simp
next
  fix t r and s s' :: "'a pystate"
  assume e: "embed_method rt t s = (r, s')"
  then have s': "s' = s\<lparr>world := snd (embedding_for rt t (world s))\<rparr>"
    by (simp add: embed_method_def generate_embedding_eq)
  show "companies s' = companies s" using s' by simp
  show "enriched_companies s' = enriched_companies s" using s' by simp
  show "prefix (heap s) (heap s')" using s' by simp
qed

lemma enriched_fields_searchable:
  "\<exists>t. fst (enriched_fields rt d w) ''searchableText'' = Some (PStr t)"
  by (simp add: enriched_fields_def update_items_def fallback_fields_def
      split: prod.splits sum.splits)

lemma process_company_methods:
  assumes c: "c < length (heap s)"
  shows "\<exists>b. enriched_companies (process_company (enrich_method rt) (embed_method rt) c s) =
               enriched_companies s @ [b] \<and>
             heap (process_company (enrich_method rt) (embed_method rt) c s) ! b =
               fst (processed_record rt (heap s ! c) (world s))"
proof -
  let ?e = "enriched_fields rt (heap s ! c) (world s)"
  from enrich_company_description_eq[OF c, of rt] obtain garbage where
    g: "enrich_company_description rt c s =
         (length (heap s) + length garbage,
          s\<lparr>world := snd ?e, heap := heap s @ garbage @ [fst ?e]\<rparr>)"
    by blast
  obtain t where t: "fst ?e ''searchableText'' = Some (PStr t)"
    using enriched_fields_searchable[of rt "heap s ! c" "world s"] by blast
  let ?b = "length (heap s) + length garbage"
  let ?v = "embedding_for rt (PStr t) (snd ?e)"
  have "process_company (enrich_method rt) (embed_method rt) c s =
      s\<lparr>world := snd ?v,
        heap := heap s @ garbage @ [(fst ?e)(''embedding'' \<mapsto> embedding_value (fst ?v))],
        enriched_companies := enriched_companies s @ [?b]\<rparr>"
    using g t
    by (simp add: process_company_def enrich_method_def embed_method_def generate_embedding_eq
        dict_set_def nth_append list_update_append)
  moreover have "fst (processed_record rt (heap s ! c) (world s)) =
      (fst ?e)(''embedding'' \<mapsto> embedding_value (fst ?v))"
    using t by (auto simp: processed_record_def split: prod.splits)
  ultimately show ?thesis
    by (intro exI[of _ ?b]) (simp add: nth_append)
qed

lemma process_company_cases:
  assumes rf: "respects_frame enrich embedder" and c: "c < length (heap s)"
  shows "(\<exists>sf. process_company enrich embedder c s = add_without_enhancements c sf \<and>
               prefix (heap s) (heap sf) \<and> enriched_companies sf = enriched_companies s) \<or>
         (\<exists>a t v s1 s2. enrich c s = (Inr a, s1) \<and> embedder t s1 = (Inr v, s2) \<and>
               process_company enrich embedder c s =
                 s2\<lparr>heap := (heap s2)[a := (heap s2 ! a)(''embedding'' \<mapsto> embedding_value v)],
                    enriched_companies := enriched_companies s2 @ [a]\<rparr> \<and>
               a < length (heap s2) \<and> enriched_companies s2 = enriched_companies s)"
proof (cases "enrich c s")
  case (Pair r s1)
  with rf c have f1: "enriched_companies s1 = enriched_companies s" "prefix (heap s) (heap s1)"
    and fresh: "\<And>a. r = Inr a \<Longrightarrow> a < length (heap s1)"
    unfolding respects_frame_def by blast+
  show ?thesis
  proof (cases r)
    case (Inl e)
    with Pair have "process_company enrich embedder c s = add_without_enhancements c s1"
      by (simp add: process_company_def)
    with f1 show ?thesis by blast
  next
    case (Inr a)
    show ?thesis
    proof (cases "(heap s1 ! a) ''searchableText''")
      case None
      with Pair Inr have "process_company enrich embedder c s = add_without_enhancements c s1"
        by (simp add: process_company_def)
      with f1 show ?thesis by blast
    next
      case (Some t)
      show ?thesis
      proof (cases "embedder t s1")
        case p2: (Pair r2 s2)
        with rf have f2: "enriched_companies s2 = enriched_companies s1" "prefix (heap s1) (heap s2)"
          unfolding respects_frame_def by blast+
        have pre2: "prefix (heap s) (heap s2)"
          using f1(2) f2(2) by (rule prefix_order.trans)
        show ?thesis
        proof (cases r2)
          case (Inl e)
          with Pair Inr Some p2
          have "process_company enrich embedder c s = add_without_enhancements c s2"
            by (simp add: process_company_def)
          moreover have "enriched_companies s2 = enriched_companies s" using f1 f2 by simp
          ultimately show ?thesis using pre2 by blast
        next
          case v: (Inr v)
          have eq: "process_company enrich embedder c s =
              s2\<lparr>heap := (heap s2)[a := (heap s2 ! a)(''embedding'' \<mapsto> embedding_value v)],
                 enriched_companies := enriched_companies s2 @ [a]\<rparr>"
            using Pair Inr Some p2 v by (simp add: process_company_def dict_set_def)
          have a: "a < length (heap s2)"
            using fresh[OF Inr] prefix_length_le[OF f2(2)] by simp
          have "enrich c s = (Inr a, s1)" using Pair Inr by simp
          moreover have "embedder t s1 = (Inr v, s2)" using p2 v by simp
          moreover have "enriched_companies s2 = enriched_companies s" using f1 f2 by simp
          ultimately show ?thesis using eq a by blast
        qed
      qed
    qed
  qed
qed

lemma process_company_failure:
  assumes rf: "respects_frame enrich embedder" and c: "c < length (heap s)"
    and fail: "(\<forall>s0. isl (fst (enrich c s0))) \<or> (\<forall>t s0. isl (fst (embedder t s0)))"
  shows "\<exists>sf. process_company enrich embedder c s = add_without_enhancements c sf \<and>
               prefix (heap s) (heap sf) \<and> enriched_companies sf = enriched_companies s"
  using process_company_cases[OF rf c] fail
  by (metis fst_conv sum.disc(2))


lemma batch_enrich_companies_with_result:
  assumes rf: "respects_frame enrich embedder" and bs: "1 \<le> batch_size"
    and wf: "\<forall>c\<in>set (companies s). c < length (heap s)"
  shows "\<exists>s' new. batch_enrich_companies_with enrich embedder batch_size s = Inr s' \<and>
           companies s' = companies s \<and> prefix (heap s) (heap s') \<and>
           enriched_companies s' = enriched_companies s @ new \<and>
           length new = length (companies s) \<and>
           list_all2 (entry_of (process_company enrich embedder) s s') (companies s) new"
proof -
  let ?s' = "fold (process_company enrich embedder) (companies s) s"
  have "batch_enrich_companies_with enrich embedder batch_size s = Inr ?s'"
    using rf bs wf by (intro batch_enrich_companies_with_eq) simp_all
  moreover from fold_process_company[OF rf wf] obtain new where
    "companies ?s' = companies s" "prefix (heap s) (heap ?s')"
    "enriched_companies ?s' = enriched_companies s @ new"
    "list_all2 (entry_of (process_company enrich embedder) s ?s') (companies s) new"
    by blast
  ultimately show ?thesis
    by (metis list_all2_lengthD)
qed

lemma entry_of_methods:
  assumes "entry_of (process_company (enrich_method rt) (embed_method rt)) s s' c b"
  shows "\<exists>w. heap s' ! b = fst (processed_record rt (heap s ! c) w)"
proof -
  let ?P = "process_company (enrich_method rt) (embed_method rt)"
  from assms obtain s0 where
    s0: "c < length (heap s)" "prefix (heap s) (heap s0)"
        "enriched_companies (?P c s0) = enriched_companies s0 @ [b]"
        "b < length (heap (?P c s0))" "prefix (heap (?P c s0)) (heap s')"
    unfolding entry_of_def by blast
  have c0: "c < length (heap s0)"
    using s0(1) prefix_length_le[OF s0(2)] by simp
  from process_company_methods[OF c0, of rt] obtain b' where
    b': "enriched_companies (?P c s0) = enriched_companies s0 @ [b']"
        "heap (?P c s0) ! b' = fst (processed_record rt (heap s0 ! c) (world s0))"
    by blast
  have "b' = b" using b'(1) s0(3) by simp
  moreover have "heap s0 ! c = heap s ! c"
    using s0(2) s0(1) by (rule prefix_nth)
  moreover have "heap s' ! b = heap (?P c s0) ! b"
    using s0(5) s0(4) by (rule prefix_nth)
  ultimately show ?thesis using b'(2) by auto
qed

lemma entry_of_failure:
  assumes rf: "respects_frame enrich embedder"
    and e: "entry_of (process_company enrich embedder) s s' c b"
    and fail: "(\<forall>s0. isl (fst (enrich c s0))) \<or> (\<forall>t s0. isl (fst (embedder t s0)))"
  shows "heap s' ! b = (heap s ! c)(''embedding'' \<mapsto> embedding_value (replicate 1536 0))"
proof -
  let ?P = "process_company enrich embedder"
  from e obtain s0 where
    s0: "c < length (heap s)" "prefix (heap s) (heap s0)"
        "enriched_companies (?P c s0) = enriched_companies s0 @ [b]"
        "b < length (heap (?P c s0))" "prefix (heap (?P c s0)) (heap s')"
    unfolding entry_of_def by blast
  have c0: "c < length (heap s0)"
    using s0(1) prefix_length_le[OF s0(2)] by simp
  from process_company_failure[OF rf c0 fail] obtain sf where
    sf: "?P c s0 = add_without_enhancements c sf" "prefix (heap s0) (heap sf)"
        "enriched_companies sf = enriched_companies s0"
    by blast
  have b: "b = length (heap sf)"
    using s0(3) sf(1,3) by (simp add: add_without_enhancements_eq)
  have "prefix (heap s) (heap sf)"
    using s0(2) sf(2) by (rule prefix_order.trans)
  then have "heap sf ! c = heap s ! c"
    using s0(1) by (rule prefix_nth)
  then have "heap (?P c s0) ! b =
      (heap s ! c)(''embedding'' \<mapsto> embedding_value (replicate 1536 0))"
    using b sf(1) by (simp add: add_without_enhancements_eq)
  moreover have "heap s' ! b = heap (?P c s0) ! b"
    using s0(5) s0(4) by (rule prefix_nth)
  ultimately show ?thesis by simp
qed

lemma entry_of_embedding:
  assumes rf: "respects_frame enrich (embed_method rt)"
    and contract: "\<forall>t w v w'. embeddings_create rt t w = (Inr v, w') \<longrightarrow> length v = 1536"
    and e: "entry_of (process_company enrich (embed_method rt)) s s' c b"
  shows "\<exists>v. (heap s' ! b) ''embedding'' = Some (embedding_value v) \<and> length v = 1536"
proof -
  let ?P = "process_company enrich (embed_method rt)"
  from e obtain s0 where
    s0: "c < length (heap s)" "prefix (heap s) (heap s0)"
        "enriched_companies (?P c s0) = enriched_companies s0 @ [b]"
        "b < length (heap (?P c s0))" "prefix (heap (?P c s0)) (heap s')"
    unfolding entry_of_def by blast
  have c0: "c < length (heap s0)"
    using s0(1) prefix_length_le[OF s0(2)] by simp
  have final: "heap s' ! b = heap (?P c s0) ! b"
    using s0(5) s0(4) by (rule prefix_nth)
  from process_company_cases[OF rf c0] show ?thesis
  proof (elim disjE exE conjE)
    fix sf
    assume sf: "?P c s0 = add_without_enhancements c sf" "enriched_companies sf = enriched_companies s0"
    have "b = length (heap sf)"
      using s0(3) sf by (simp add: add_without_enhancements_eq)
    then have "(heap (?P c s0) ! b) ''embedding'' = Some (embedding_value (replicate 1536 0))"
      using sf(1) by (simp add: add_without_enhancements_eq)
    then show ?thesis using final by (intro exI[of _ "replicate 1536 0"]) simp
  next
    fix a t v s1 s2
    assume a: "embed_method rt t s1 = (Inr v, s2)"
      "?P c s0 = s2\<lparr>heap := (heap s2)[a := (heap s2 ! a)(''embedding'' \<mapsto> embedding_value v)],
                     enriched_companies := enriched_companies s2 @ [a]\<rparr>"
      "a < length (heap s2)" "enriched_companies s2 = enriched_companies s0"
    have "b = a" using s0(3) a(2,4) by simp
    then have emb: "(heap (?P c s0) ! b) ''embedding'' = Some (embedding_value v)"
      using a(2,3) by simp
    have "v = fst (embedding_for rt t (world s1))"
      using a(1) by (simp add: embed_method_def generate_embedding_eq)
    then have "length v = 1536"
      using contract by (cases "embeddings_create rt t (world s1)")
        (auto simp: embedding_for_def split: sum.splits)
    with emb final show ?thesis by (intro exI[of _ v]) simp
  qed
qed

subsection \<open>The search loop and the sort\<close>

lemma those_eq_Some: "those xs = Some ys \<longleftrightarrow> xs = map Some ys"
proof (induction xs arbitrary: ys)
  case Nil
  then show ?case by auto
next
  case (Cons x xs)
  then show ?case by (cases x; cases ys) (auto split: option.splits)
qed

lemma insort_key_map:
  assumes "f x = h (g x)" and "\<forall>y\<in>set ys. f y = h (g y)"
  shows "map g (insort_key f x ys) = insort_key h (g x) (map g ys)"
  using assms by (induction ys) simp_all

lemma sort_key_map:
  assumes "\<forall>x\<in>set xs. f x = h (g x)"
  shows "map g (sort_key f xs) = sort_key h (map g xs)"
  using assms by (induction xs) (simp_all add: insort_key_map)

lemma length_filter_mono:
  assumes "\<And>x. P x \<Longrightarrow> Q x"
  shows "length (filter P xs) \<le> length (filter Q xs)"
  using assms by (induction xs) auto

lemma length_slice_to:
  "length (slice_to xs k) =
     (if 0 \<le> k then min (nat k) (length xs) else nat (int (length xs) + k))"
  by (auto simp: slice_to_def)

lemma length_sort_reverse: "length keys = length xs \<Longrightarrow> length (sort_reverse keys xs) = length xs"
  by (simp add: sort_reverse_def)

lemma set_sort_reverse: "set (sort_reverse keys xs) \<subseteq> set xs"
  by (auto simp: sort_reverse_def dest: set_zip_rightD)

lemma set_slice_to: "set (slice_to xs k) \<subseteq> set xs"
  by (auto simp: slice_to_def dest: in_set_takeD)

lemma fold_collect_result:
  "\<exists>objs. fold (collect_result thr sims) ps (rs, s) =
            (rs @ [length (heap s)..<length (heap s) + length objs], s\<lparr>heap := heap s @ objs\<rparr>) \<and>
          list_all2 (\<lambda>obj (i, a). \<exists>d. obj = d(''similarity_score'' \<mapsto> PFloat (sims ! i)) \<and>
                                      (a < length (heap s) \<longrightarrow> d = heap s ! a))
            objs (filter (\<lambda>(i, a). thr < sims ! i) ps)"
proof -
  define R :: "pydict list \<Rightarrow> pydict \<Rightarrow> nat \<times> addr \<Rightarrow> bool" where
    "R = (\<lambda>h obj (i, a). \<exists>d. obj = d(''similarity_score'' \<mapsto> PFloat (sims ! i)) \<and>
                                      (a < length h \<longrightarrow> d = h ! a))"
  define M where "M = (\<lambda>(i :: nat, a :: addr). thr < sims ! i)"
  have "\<exists>objs. fold (collect_result thr sims) ps (rs, s) =
            (rs @ [length (heap s)..<length (heap s) + length objs], s\<lparr>heap := heap s @ objs\<rparr>) \<and>
          list_all2 (R (heap s)) objs (filter M ps)"
  proof (induction ps arbitrary: rs s)
    case Nil
    show ?case by (intro exI[of _ "[]"]) simp
  next
    case (Cons p ps)
    obtain i a where p: "p = (i, a)" by (cases p)
    show ?case
    proof (cases "thr < sims ! i")
      case False
      then have "collect_result thr sims p (rs, s) = (rs, s)" "\<not> M p"
        using p by (simp_all add: collect_result_def M_def)
      then show ?thesis
        using Cons.IH[of rs s] by simp
    next
      case True
      let ?o = "(heap s ! a)(''similarity_score'' \<mapsto> PFloat (sims ! i))"
      let ?s1 = "s\<lparr>heap := heap s @ [?o]\<rparr>"
      let ?n = "length (heap s)"
      have step: "collect_result thr sims p (rs, s) = (rs @ [?n], ?s1)"
        using True p by (simp add: collect_result_def dict_copy_def dict_set_def)
      have Mp: "M p" using True p by (simp add: M_def)
      from Cons.IH[of "rs @ [?n]" ?s1] obtain objs where
        f: "fold (collect_result thr sims) ps (rs @ [?n], ?s1) =
           ((rs @ [?n]) @ [length (heap ?s1)..<length (heap ?s1) + length objs],
            ?s1\<lparr>heap := heap ?s1 @ objs\<rparr>)"
        and r: "list_all2 (R (heap ?s1)) objs (filter M ps)"
        by blast
      have "[?n..<?n + Suc (length objs)] = ?n # [Suc ?n..<?n + Suc (length objs)]"
        by (rule upt_conv_Cons) simp
      then have idx: "[?n] @ [Suc ?n..<Suc ?n + length objs] = [?n..<?n + length (?o # objs)]"
        by simp
      have eq: "fold (collect_result thr sims) (p # ps) (rs, s) =
          (rs @ [?n..<?n + length (?o # objs)], s\<lparr>heap := heap s @ (?o # objs)\<rparr>)"
        using f step idx by simp
      have r': "list_all2 (R (heap s)) objs (filter M ps)"
        using r by (rule list_all2_mono) (auto simp: R_def nth_append)
      have "R (heap s) ?o p"
        unfolding R_def p by (simp only: prod.case) blast
      then have "list_all2 (R (heap s)) (?o # objs) (filter M (p # ps))"
        using r' Mp by simp
      with eq show ?thesis by blast
    qed
  qed
  then show ?thesis unfolding R_def M_def .
qed


lemma map_nth_append_upt:
  "map (\<lambda>b. f ((h @ objs) ! b)) [length h..<length h + length objs] = map f objs"
  by (rule nth_equalityI) (simp_all add: nth_append)

lemma score_with_key:
  "score (d(''similarity_score'' \<mapsto> PFloat x)) = x"
  by (simp add: score_def)

lemma sorted_results_contents:
  "map (\<lambda>b. (h @ objs) ! b)
     (sort_reverse (map score objs) [length h..<length h + length objs]) =
   sort_key (\<lambda>d. - score d) objs"
proof -
  let ?Z = "zip (map score objs) [length h..<length h + length objs]"
  let ?g = "\<lambda>z. (h @ objs) ! snd z"
  have key: "\<forall>z\<in>set ?Z. (case z of (k, x) \<Rightarrow> - k) = - score (?g z)"
  proof
    fix z
    assume "z \<in> set ?Z"
    then obtain j where "j < length objs" "z = (score (objs ! j), length h + j)"
      by (auto simp: in_set_zip)
    then show "(case z of (k, x) \<Rightarrow> - k) = - score (?g z)"
      by (simp add: nth_append)
  qed
  have "map (\<lambda>b. (h @ objs) ! b) (sort_reverse (map score objs) [length h..<length h + length objs])
      = map ?g (sort_key (\<lambda>(k, x). - k) ?Z)"
    by (simp add: sort_reverse_def comp_def)
  also have "\<dots> = sort_key (\<lambda>d. - score d) (map ?g ?Z)"
    using sort_key_map[where f = "\<lambda>(k, x). - k" and h = "\<lambda>d. - score d" and g = ?g, OF key] .
  also have "map ?g ?Z = map (\<lambda>b. (h @ objs) ! b) [length h..<length h + length objs]"
  proof -
    have "map ?g ?Z = map (\<lambda>b. (h @ objs) ! b) (map snd ?Z)"
      by (simp only: map_map comp_def)
    moreover have "map snd ?Z = [length h..<length h + length objs]"
      by (rule map_snd_zip) simp
    ultimately show ?thesis by simp
  qed
  also have "\<dots> = objs"
    using map_nth_append_upt[of "\<lambda>d. d" h objs] by simp
  finally show ?thesis .
qed

lemma rank_results_eq:
  "\<exists>objs. rank_results thr sims top_k s =
            (Inr (slice_to (sort_reverse (map score objs)
                    [length (heap s)..<length (heap s) + length objs]) top_k),
             s\<lparr>heap := heap s @ objs\<rparr>) \<and>
          list_all2 (\<lambda>obj (i, a). \<exists>d. obj = d(''similarity_score'' \<mapsto> PFloat (sims ! i)) \<and>
                                      (a < length (heap s) \<longrightarrow> d = heap s ! a))
            objs (filter (\<lambda>(i, a). thr < sims ! i) (enumerate 0 (enriched_companies s)))"
proof -
  from fold_collect_result[of thr sims "enumerate 0 (enriched_companies s)" "[]" s]
  obtain objs where
    f: "fold (collect_result thr sims) (enumerate 0 (enriched_companies s)) ([], s) =
          ([length (heap s)..<length (heap s) + length objs], s\<lparr>heap := heap s @ objs\<rparr>)"
    and r: "list_all2 (\<lambda>obj (i, a). \<exists>d. obj = d(''similarity_score'' \<mapsto> PFloat (sims ! i)) \<and>
                                      (a < length (heap s) \<longrightarrow> d = heap s ! a))
            objs (filter (\<lambda>(i, a). thr < sims ! i) (enumerate 0 (enriched_companies s)))"
    by auto
  have sc: "\<forall>obj\<in>set objs. (case obj ''similarity_score'' of None \<Rightarrow> None | Some v \<Rightarrow> as_number v)
              = Some (score obj)"
    using r by (induction rule: list_all2_induct) (auto simp: score_def)
  have "map (score_key (s\<lparr>heap := heap s @ objs\<rparr>)) [length (heap s)..<length (heap s) + length objs]
      = map (\<lambda>obj. case obj ''similarity_score'' of None \<Rightarrow> None | Some v \<Rightarrow> as_number v) objs"
    using map_nth_append_upt[of "\<lambda>obj. case obj ''similarity_score'' of None \<Rightarrow> None
                                          | Some v \<Rightarrow> as_number v" "heap s" objs]
    by (simp add: score_key_def[abs_def])
  also have "\<dots> = map Some (map score objs)"
    using sc by simp
  finally have "those (map (score_key (s\<lparr>heap := heap s @ objs\<rparr>))
                  [length (heap s)..<length (heap s) + length objs]) = Some (map score objs)"
    by (simp add: those_eq_Some)
  then have "rank_results thr sims top_k s =
            (Inr (slice_to (sort_reverse (map score objs)
                    [length (heap s)..<length (heap s) + length objs]) top_k),
             s\<lparr>heap := heap s @ objs\<rparr>)"
    using f by (simp add: rank_results_def)
  with r show ?thesis by blast
qed

subsection \<open>The similarities\<close>

lemma calculate_similarities_state:
  "snd (calculate_similarities rt query s) =
     s\<lparr>world := snd (embedding_for rt (PStr query) (world s))\<rparr>"
  by (simp add: calculate_similarities_def generate_embedding_eq split: option.splits sum.splits)

lemma embedding_rows:
  assumes "map (\<lambda>c. (h ! c) ''embedding'') cs = map Some embs"
    and "map as_row embs = map Some rows"
  shows "map f rows = map (\<lambda>c. case embedding_of (h ! c) of None \<Rightarrow> z | Some e \<Rightarrow> f e) cs"
  using assms
proof (induction cs arbitrary: embs rows)
  case Nil
  then show ?case by simp
next
  case (Cons c cs)
  then obtain v embs' where embs: "embs = v # embs'" by (cases embs) auto
  with Cons.prems obtain e rows' where rows: "rows = e # rows'" by (cases rows) auto
  from Cons.prems embs rows have "(h ! c) ''embedding'' = Some v" "as_row v = Some e"
    "map (\<lambda>c. (h ! c) ''embedding'') cs = map Some embs'" "map as_row embs' = map Some rows'"
    by simp_all
  with Cons.IH[of embs' rows'] embs rows show ?case
    by (simp add: embedding_of_def)
qed

lemma calculate_similarities_Inr:
  assumes "fst (calculate_similarities rt query s) = Inr sims"
  shows "sims = map (\<lambda>a. similarity (fst (embedding_for rt (PStr query) (world s))) (heap s ! a))
                  (enriched_companies s)"
proof -
  let ?q = "fst (embedding_for rt (PStr query) (world s))"
  from assms obtain embs rows where
    e: "those (map (\<lambda>c. (heap s ! c) ''embedding'') (enriched_companies s)) = Some embs"
    and r: "those (map as_row embs) = Some rows"
    and s: "sims = map (cosine_row ?q) rows"
    by (auto simp: calculate_similarities_def generate_embedding_eq cosine_similarity_def
        split: option.splits sum.splits if_splits)
  from embedding_rows[OF e[unfolded those_eq_Some] r[unfolded those_eq_Some],
      of "cosine_row ?q" 0] s
  show ?thesis by (simp add: similarity_def[abs_def])
qed

lemma calculate_similarities_success:
  assumes "enriched_companies s \<noteq> []"
    and "fst (embedding_for rt (PStr query) (world s)) \<noteq> []"
    and "list_all (\<lambda>a. has_dimension (length (fst (embedding_for rt (PStr query) (world s))))
                        (heap s ! a)) (enriched_companies s)"
  shows "fst (calculate_similarities rt query s) =
           Inr (map (\<lambda>a. similarity (fst (embedding_for rt (PStr query) (world s))) (heap s ! a))
                  (enriched_companies s))"
proof -
  let ?q = "fst (embedding_for rt (PStr query) (world s))"
  let ?cs = "enriched_companies s"
  let ?embs = "map (\<lambda>c. the ((heap s ! c) ''embedding'')) ?cs"
  let ?rows = "map (\<lambda>v. the (as_row v)) ?embs"
  have d: "\<forall>c\<in>set ?cs. \<exists>v e. (heap s ! c) ''embedding'' = Some v \<and> as_row v = Some e \<and>
             length e = length ?q"
  proof
    fix c
    assume "c \<in> set ?cs"
    with assms(3) have "has_dimension (length ?q) (heap s ! c)"
      by (simp add: list_all_iff)
    then show "\<exists>v e. (heap s ! c) ''embedding'' = Some v \<and> as_row v = Some e \<and>
             length e = length ?q"
      by (cases "(heap s ! c) ''embedding''"; cases "as_row (the ((heap s ! c) ''embedding''))")
         (simp_all add: has_dimension_def embedding_of_def)
  qed
  define embs where "embs = ?embs"
  define rows where "rows = map (\<lambda>v. the (as_row v)) embs"
  have e: "those (map (\<lambda>c. (heap s ! c) ''embedding'') ?cs) = Some embs"
    unfolding those_eq_Some embs_def using d by auto
  have r: "those (map as_row embs) = Some rows"
    unfolding those_eq_Some embs_def rows_def using d by auto
  have l: "list_all (\<lambda>e. length e = length ?q) rows"
    unfolding embs_def rows_def using d by (auto simp: list_all_iff)
  have ne: "rows \<noteq> []" unfolding embs_def rows_def using assms(1) by simp
  have "fst (calculate_similarities rt query s) = Inr (map (cosine_row ?q) rows)"
    using l ne assms(2)
    by (simp add: calculate_similarities_def generate_embedding_eq cosine_similarity_def e r)
  then show ?thesis
    using calculate_similarities_Inr by metis
qed

section \<open>The enrichment fallback\<close>

lemma enrichment_response_client_error:
  "fst (chat_completion rt (prompt rt d) w) = Inl e \<Longrightarrow> fst (enrichment_response rt d w) = Inl e"
  by (cases "chat_completion rt (prompt rt d) w") (simp add: enrichment_response_def)

lemma enrichment_response_parse_error:
  "fst (chat_completion rt (prompt rt d) w) = Inr content \<Longrightarrow> json_loads rt content = Inl e \<Longrightarrow>
   fst (enrichment_response rt d w) = Inl e"
  by (cases "chat_completion rt (prompt rt d) w") (simp add: enrichment_response_def)

text \<open>
  Claim C1, as the code has it. When the \<^verbatim>\<open>try\<close> block of \<^verbatim>\<open>enrich_company_description\<close>
  raises (the client raises, the response does not parse, the parsed value is not a JSON
  object, or a \<^verbatim>\<open>join\<close> raises), the method returns a new dict: the fields of the input
  record, overlaid with a template-filled description that is never empty, empty
  \<^verbatim>\<open>projectTypes\<close> and \<^verbatim>\<open>architectSpecialties\<close>, \<^verbatim>\<open>complexity\<close> and \<^verbatim>\<open>typicalScale\<close> both
  \<^verbatim>\<open>medium\<close>, and the searchable text. The fallback does not set \<^verbatim>\<open>collaborationStyle\<close> and
  \<^verbatim>\<open>marketTrends\<close>: the result has them only if the input record had them.
\<close>

theorem enrich_fallback_result:
  assumes "company < length (heap s)"
    and "fst (enrichment_response rt (heap s ! company) (world s)) = Inl e"
  shows "heap (snd (enrich_company_description rt company s))
           ! fst (enrich_company_description rt company s) =
         (heap s ! company)
           (''aiDescription'' \<mapsto> PStr (fallback_description rt (heap s ! company)),
            ''projectTypes'' \<mapsto> PList [],
            ''architectSpecialties'' \<mapsto> PList [],
            ''complexity'' \<mapsto> PStr ''medium'',
            ''typicalScale'' \<mapsto> PStr ''medium'',
            ''searchableText'' \<mapsto> PStr (fallback_searchable_text rt (heap s ! company))) \<and>
         fallback_description rt (heap s ! company) \<noteq> [] \<and>
         (heap (snd (enrich_company_description rt company s))
           ! fst (enrich_company_description rt company s)) ''collaborationStyle'' =
           (heap s ! company) ''collaborationStyle'' \<and>
         (heap (snd (enrich_company_description rt company s))
           ! fst (enrich_company_description rt company s)) ''marketTrends'' =
           (heap s ! company) ''marketTrends''"
proof -
  let ?d = "heap s ! company"
  from enrich_company_description_eq[OF assms(1), of rt] obtain garbage where
    g: "enrich_company_description rt company s =
         (length (heap s) + length garbage,
          s\<lparr>world := snd (enriched_fields rt ?d (world s)),
            heap := heap s @ garbage @ [fst (enriched_fields rt ?d (world s))]\<rparr>)"
    by blast
  have "fst (enriched_fields rt ?d (world s)) = update_items ?d (fallback_fields rt ?d)"
    using assms(2) by (cases "enrichment_response rt ?d (world s)") (simp add: enriched_fields_def)
  then have r: "heap (snd (enrich_company_description rt company s))
           ! fst (enrich_company_description rt company s) = update_items ?d (fallback_fields rt ?d)"
    using g by (simp add: nth_append)
  have "fallback_description rt ?d \<noteq> []"
    by (simp add: fallback_description_def company_of_type_def)
  then show ?thesis
    unfolding r by (simp add: update_items_def fallback_fields_def)
qed

text \<open>The theorem at the first of the two sample companies, with a client that raises.\<close>

theorem enrich_fallback_result_witness:
  "0 < length (heap two_companies_state) \<and>
   fst (enrichment_response failing_env (heap two_companies_state ! 0) (world two_companies_state)) =
     Inl APIError \<and>
   (heap (snd (enrich_company_description failing_env 0 two_companies_state))
      ! fst (enrich_company_description failing_env 0 two_companies_state)) ''complexity'' =
     Some (PStr ''medium'') \<and>
   (heap (snd (enrich_company_description failing_env 0 two_companies_state))
      ! fst (enrich_company_description failing_env 0 two_companies_state)) ''companyName'' =
     Some (PStr ''A'')"
proof -
  have h1: "0 < length (heap two_companies_state)"
    by (simp add: two_companies_state_def)
  have h2: "fst (enrichment_response failing_env (heap two_companies_state ! 0)
              (world two_companies_state)) = Inl APIError"
    by (simp add: enrichment_response_def failing_env_def)
  have d: "heap two_companies_state ! 0 = [''companyName'' \<mapsto> PStr ''A'']"
    by (simp add: two_companies_state_def)
  show ?thesis
    using enrich_fallback_result[OF h1 h2] h1 h2 by (simp add: d)
qed

text \<open>
  Claim C1 as stated fails: for a record without these two fields and a client that raises,
  the result has neither \<^verbatim>\<open>collaborationStyle\<close> nor \<^verbatim>\<open>marketTrends\<close>.
\<close>

theorem enrich_fallback_incomplete:
  "fst (chat_completion failing_env (prompt failing_env (heap two_companies_state ! 0))
         (world two_companies_state)) = Inl APIError \<and>
   (heap (snd (enrich_company_description failing_env 0 two_companies_state))
      ! fst (enrich_company_description failing_env 0 two_companies_state)) ''collaborationStyle'' =
     None \<and>
   (heap (snd (enrich_company_description failing_env 0 two_companies_state))
      ! fst (enrich_company_description failing_env 0 two_companies_state)) ''marketTrends'' = None"
  by (simp add: enrich_company_description_def enrich_fallback_def dict_copy_def dict_update_def
      update_items_def fallback_fields_def failing_env_def two_companies_state_def)

section \<open>The batch run\<close>

text \<open>
  Claim C2. For every list of companies, every service and every \<open>batch_size \<ge> 1\<close>,
  \<^verbatim>\<open>batch_enrich_companies\<close> returns normally and appends exactly one entry per company, in
  the order of the companies: the \<open>i\<close>-th new entry holds the fields that the loop body
  computes from the \<open>i\<close>-th company (in some state \<open>w\<close> of the service), whichever of the calls
  to the service succeed or fail.
\<close>

theorem batch_one_entry_per_record:
  assumes "1 \<le> batch_size" and "list_all (\<lambda>c. c < length (heap s)) (companies s)"
  shows "\<exists>s' new. batch_enrich_companies rt batch_size s = Inr s' \<and>
           enriched_companies s' = enriched_companies s @ new \<and>
           length new = length (companies s) \<and>
           list_all2 (\<lambda>c b. \<exists>w. heap s' ! b = fst (processed_record rt (heap s ! c) w))
             (companies s) new"
proof -
  let ?P = "process_company (enrich_method rt) (embed_method rt)"
  have wf: "\<forall>c\<in>set (companies s). c < length (heap s)"
    using assms(2) by (simp add: list_all_iff)
  from batch_enrich_companies_with_result[OF respects_frame_methods assms(1) wf, of rt]
  obtain s' new where
    r: "batch_enrich_companies_with (enrich_method rt) (embed_method rt) batch_size s = Inr s'"
       "enriched_companies s' = enriched_companies s @ new"
       "length new = length (companies s)"
       "list_all2 (entry_of ?P s s') (companies s) new"
    by blast
  have "list_all2 (\<lambda>c b. \<exists>w. heap s' ! b = fst (processed_record rt (heap s ! c) w))
          (companies s) new"
    using r(4) by (rule list_all2_mono) (rule entry_of_methods)
  with r show ?thesis
    unfolding batch_enrich_companies_def by blast
qed

text \<open>The theorem for the two sample companies and batches of five.\<close>

theorem batch_one_entry_per_record_witness:
  "(1::int) \<le> 5 \<and>
   (list_all (\<lambda>c. c < length (heap two_companies_state)) (companies two_companies_state)) \<and>
   (\<exists>s' new. batch_enrich_companies sample_env 5 two_companies_state = Inr s' \<and>
      enriched_companies s' = enriched_companies two_companies_state @ new \<and>
      length new = length (companies two_companies_state) \<and>
      list_all2 (\<lambda>c b. \<exists>w. heap s' ! b =
                   fst (processed_record sample_env (heap two_companies_state ! c) w))
        (companies two_companies_state) new)"
proof -
  have h1: "(1::int) \<le> 5" by simp
  have h2: "list_all (\<lambda>c. c < length (heap two_companies_state)) (companies two_companies_state)"
    by (simp add: two_companies_state_def)
  show ?thesis
    using batch_one_entry_per_record[OF h1 h2, of sample_env] h1 h2 by blast
qed

text \<open>
  Claim C10. \<^verbatim>\<open>batch_enrich_companies\<close> appends to \<^verbatim>\<open>self.enriched_companies\<close> and never
  clears it: after a call the list is its prior contents (the same objects, unchanged)
  followed by one new entry per company, so it is as long as \<^verbatim>\<open>self.companies\<close> exactly
  when it was empty before; a second call over the same companies appends as many entries
  again.
\<close>

theorem batch_appends:
  assumes "1 \<le> batch_size" and "list_all (\<lambda>c. c < length (heap s)) (companies s)"
  shows "\<exists>s1 s2 new1 new2.
           batch_enrich_companies rt batch_size s = Inr s1 \<and>
           enriched_companies s1 = enriched_companies s @ new1 \<and>
           length new1 = length (companies s) \<and>
           companies s1 = companies s \<and> prefix (heap s) (heap s1) \<and>
           (length (enriched_companies s1) = length (companies s) \<longleftrightarrow> enriched_companies s = []) \<and>
           batch_enrich_companies rt batch_size s1 = Inr s2 \<and>
           enriched_companies s2 = enriched_companies s @ new1 @ new2 \<and>
           length new2 = length (companies s) \<and>
           length (enriched_companies s2) = length (enriched_companies s) + 2 * length (companies s)"
proof -
  have wf: "\<forall>c\<in>set (companies s). c < length (heap s)"
    using assms(2) by (simp add: list_all_iff)
  from batch_enrich_companies_with_result[OF respects_frame_methods assms(1) wf, of rt]
  obtain s1 new1 where
    r1: "batch_enrich_companies rt batch_size s = Inr s1"
        "companies s1 = companies s" "prefix (heap s) (heap s1)"
        "enriched_companies s1 = enriched_companies s @ new1"
        "length new1 = length (companies s)"
    unfolding batch_enrich_companies_def by blast
  have wf1: "\<forall>c\<in>set (companies s1). c < length (heap s1)"
    using wf r1(2) prefix_length_le[OF r1(3)] by fastforce
  from batch_enrich_companies_with_result[OF respects_frame_methods assms(1) wf1, of rt]
  obtain s2 new2 where
    r2: "batch_enrich_companies rt batch_size s1 = Inr s2"
        "enriched_companies s2 = enriched_companies s1 @ new2"
        "length new2 = length (companies s1)"
    unfolding batch_enrich_companies_def by blast
  have "length (enriched_companies s1) = length (companies s) \<longleftrightarrow> enriched_companies s = []"
    using r1(4,5) by simp
  moreover have "enriched_companies s2 = enriched_companies s @ new1 @ new2"
    using r1(4) r2(2) by simp
  moreover have "length (enriched_companies s2) =
      length (enriched_companies s) + 2 * length (companies s)"
    using r1(2,4,5) r2(2,3) by simp
  ultimately show ?thesis
    using r1 r2 by (intro exI[of _ s1] exI[of _ s2] exI[of _ new1] exI[of _ new2]) simp
qed

text \<open>Two runs over the two sample companies leave four entries.\<close>

theorem batch_appends_witness:
  "(1::int) \<le> 5 \<and>
   (list_all (\<lambda>c. c < length (heap two_companies_state)) (companies two_companies_state)) \<and>
   (\<exists>s1 s2. batch_enrich_companies sample_env 5 two_companies_state = Inr s1 \<and>
      length (enriched_companies s1) = 2 \<and>
      batch_enrich_companies sample_env 5 s1 = Inr s2 \<and>
      length (enriched_companies s2) = 4)"
proof -
  have h1: "(1::int) \<le> 5" by simp
  have h2: "list_all (\<lambda>c. c < length (heap two_companies_state)) (companies two_companies_state)"
    by (simp add: two_companies_state_def)
  have n: "length (companies two_companies_state) = 2"
    "enriched_companies two_companies_state = []"
    by (simp_all add: two_companies_state_def)
  from batch_appends[OF h1 h2, of sample_env] obtain s1 s2 new1 new2 where
    "batch_enrich_companies sample_env 5 two_companies_state = Inr s1"
    "enriched_companies s1 = enriched_companies two_companies_state @ new1"
    "length new1 = length (companies two_companies_state)"
    "batch_enrich_companies sample_env 5 s1 = Inr s2"
    "length (enriched_companies s2) =
       length (enriched_companies two_companies_state) + 2 * length (companies two_companies_state)"
    by blast
  then show ?thesis
    using h1 h2 n by (intro conjI exI[of _ s1] exI[of _ s2]) simp_all
qed

lemma list_all2_list_all:
  assumes "list_all2 P xs ys" and "\<And>x y. P x y \<Longrightarrow> Q y"
  shows "list_all Q ys"
  using assms by (induction rule: list_all2_induct) simp_all

text \<open>
  Claim C3. Whatever raises in the loop body for a company (the enrichment method, the lookup
  of \<^verbatim>\<open>searchableText\<close>, the embedding method), the body appends a copy of the company with an
  all-zero embedding of length 1536 and nothing else added. The loop never raises, and every
  company gets its entry; the entry of a company whose enrichment always raises, or any
  entry when the embedding method always raises, is that copy of the original record.
  The exceptions meant are those that \<^verbatim>\<open>except Exception\<close> catches.
\<close>

theorem batch_isolates_failures:
  assumes "respects_frame enrich embedder" and "1 \<le> batch_size"
    and "list_all (\<lambda>c. c < length (heap s)) (companies s)"
  shows "(\<forall>c s0 e s1. enrich c s0 = (Inl e, s1) \<longrightarrow>
            process_company enrich embedder c s0 =
              s1\<lparr>heap := heap s1 @ [(heap s1 ! c)(''embedding'' \<mapsto> embedding_value (replicate 1536 0))],
                 enriched_companies := enriched_companies s1 @ [length (heap s1)]\<rparr>) \<and>
         (\<forall>c s0 a s1. enrich c s0 = (Inr a, s1) \<longrightarrow> (heap s1 ! a) ''searchableText'' = None \<longrightarrow>
            process_company enrich embedder c s0 =
              s1\<lparr>heap := heap s1 @ [(heap s1 ! c)(''embedding'' \<mapsto> embedding_value (replicate 1536 0))],
                 enriched_companies := enriched_companies s1 @ [length (heap s1)]\<rparr>) \<and>
         (\<forall>c s0 a s1 t e s2. enrich c s0 = (Inr a, s1) \<longrightarrow>
            (heap s1 ! a) ''searchableText'' = Some t \<longrightarrow> embedder t s1 = (Inl e, s2) \<longrightarrow>
            process_company enrich embedder c s0 =
              s2\<lparr>heap := heap s2 @ [(heap s2 ! c)(''embedding'' \<mapsto> embedding_value (replicate 1536 0))],
                 enriched_companies := enriched_companies s2 @ [length (heap s2)]\<rparr>) \<and>
         (\<exists>s' new. batch_enrich_companies_with enrich embedder batch_size s = Inr s' \<and>
            enriched_companies s' = enriched_companies s @ new \<and>
            length new = length (companies s) \<and>
            list_all2 (\<lambda>c b. (\<forall>s0. isl (fst (enrich c s0))) \<or> (\<forall>t s0. isl (fst (embedder t s0))) \<longrightarrow>
                         heap s' ! b =
                           (heap s ! c)(''embedding'' \<mapsto> embedding_value (replicate 1536 0)))
              (companies s) new)"
proof (intro conjI allI impI)
  fix c e and s0 s1 :: "'a pystate"
  assume "enrich c s0 = (Inl e, s1)"
  then show "process_company enrich embedder c s0 =
      s1\<lparr>heap := heap s1 @ [(heap s1 ! c)(''embedding'' \<mapsto> embedding_value (replicate 1536 0))],
         enriched_companies := enriched_companies s1 @ [length (heap s1)]\<rparr>"
    by (simp add: process_company_def add_without_enhancements_eq)
next
  fix c a and s0 s1 :: "'a pystate"
  assume "enrich c s0 = (Inr a, s1)" "(heap s1 ! a) ''searchableText'' = None"
  then show "process_company enrich embedder c s0 =
      s1\<lparr>heap := heap s1 @ [(heap s1 ! c)(''embedding'' \<mapsto> embedding_value (replicate 1536 0))],
         enriched_companies := enriched_companies s1 @ [length (heap s1)]\<rparr>"
    by (simp add: process_company_def add_without_enhancements_eq)
next
  fix c a t e and s0 s1 s2 :: "'a pystate"
  assume "enrich c s0 = (Inr a, s1)" "(heap s1 ! a) ''searchableText'' = Some t"
    "embedder t s1 = (Inl e, s2)"
  then show "process_company enrich embedder c s0 =
      s2\<lparr>heap := heap s2 @ [(heap s2 ! c)(''embedding'' \<mapsto> embedding_value (replicate 1536 0))],
         enriched_companies := enriched_companies s2 @ [length (heap s2)]\<rparr>"
    by (simp add: process_company_def add_without_enhancements_eq)
next
  let ?P = "process_company enrich embedder"
  have wf: "\<forall>c\<in>set (companies s). c < length (heap s)"
    using assms(3) by (simp add: list_all_iff)
  from batch_enrich_companies_with_result[OF assms(1,2) wf]
  obtain s' new where
    r: "batch_enrich_companies_with enrich embedder batch_size s = Inr s'"
       "enriched_companies s' = enriched_companies s @ new"
       "length new = length (companies s)"
       "list_all2 (entry_of ?P s s') (companies s) new"
    by blast
  have "list_all2 (\<lambda>c b. (\<forall>s0. isl (fst (enrich c s0))) \<or> (\<forall>t s0. isl (fst (embedder t s0))) \<longrightarrow>
                         heap s' ! b =
                           (heap s ! c)(''embedding'' \<mapsto> embedding_value (replicate 1536 0)))
              (companies s) new"
    using r(4) by (rule list_all2_mono) (use entry_of_failure[OF assms(1)] in blast)
  with r show "\<exists>s' new. batch_enrich_companies_with enrich embedder batch_size s = Inr s' \<and>
            enriched_companies s' = enriched_companies s @ new \<and>
            length new = length (companies s) \<and>
            list_all2 (\<lambda>c b. (\<forall>s0. isl (fst (enrich c s0))) \<or> (\<forall>t s0. isl (fst (embedder t s0))) \<longrightarrow>
                         heap s' ! b =
                           (heap s ! c)(''embedding'' \<mapsto> embedding_value (replicate 1536 0)))
              (companies s) new"
    by blast
qed

text \<open>The theorem for an enrichment method that always raises.\<close>

theorem batch_isolates_failures_witness:
  "respects_frame raising_enrich (embed_method failing_env) \<and> (1::int) \<le> 1 \<and>
   (list_all (\<lambda>c. c < length (heap two_companies_state)) (companies two_companies_state)) \<and>
   (\<exists>s' b0 b1.
      batch_enrich_companies_with raising_enrich (embed_method failing_env) 1 two_companies_state =
        Inr s' \<and>
      enriched_companies s' = [b0, b1] \<and>
      heap s' ! b0 = [''companyName'' \<mapsto> PStr ''A'',
                      ''embedding'' \<mapsto> embedding_value (replicate 1536 0)] \<and>
      heap s' ! b1 = [''embedding'' \<mapsto> embedding_value (replicate 1536 0)])"
proof -
  have h0: "respects_frame raising_enrich (embed_method failing_env)"
    using respects_frame_methods[of failing_env]
    by (simp add: respects_frame_def raising_enrich_def)
  have h1: "(1::int) \<le> 1" by simp
  have h2: "list_all (\<lambda>c. c < length (heap two_companies_state)) (companies two_companies_state)"
    by (simp add: two_companies_state_def)
  have always: "\<forall>s0. isl (fst (raising_enrich c s0))" for c
    by (simp add: raising_enrich_def)
  from batch_isolates_failures[OF h0 h1 h2] obtain s' new where
    r: "batch_enrich_companies_with raising_enrich (embed_method failing_env) 1 two_companies_state =
          Inr s'"
       "enriched_companies s' = enriched_companies two_companies_state @ new"
       "length new = length (companies two_companies_state)"
       "list_all2 (\<lambda>c b. (\<forall>s0. isl (fst (raising_enrich c s0))) \<or>
                          (\<forall>t s0. isl (fst (embed_method failing_env t s0))) \<longrightarrow>
                         heap s' ! b =
                           (heap two_companies_state ! c)
                             (''embedding'' \<mapsto> embedding_value (replicate 1536 0)))
              (companies two_companies_state) new"
    by blast
  from r(3) obtain b0 b1 where new: "new = [b0, b1]"
    by (cases new; cases "tl new"; cases "tl (tl new)") (auto simp: two_companies_state_def)
  have "heap s' ! b0 = [''companyName'' \<mapsto> PStr ''A'',
                      ''embedding'' \<mapsto> embedding_value (replicate 1536 0)]"
       "heap s' ! b1 = [''embedding'' \<mapsto> embedding_value (replicate 1536 0)]"
    using r(4) always unfolding new by (simp_all add: two_companies_state_def)
  then show ?thesis
    using h0 h1 h2 r(1,2) new
    by (intro conjI exI[of _ s'] exI[of _ b0] exI[of _ b1]) (simp_all add: two_companies_state_def)
qed

text \<open>
  Claim C7. Provided the embedding service returns vectors of length 1536 whenever it returns,
  \<^verbatim>\<open>generate_embedding\<close> always returns 1536 numbers, and every entry a batch run appends has
  an \<^verbatim>\<open>embedding\<close> of 1536 numbers: the vector of the service, the zero vector of
  \<^verbatim>\<open>generate_embedding\<close>, or the zero vector of the loop's own \<^verbatim>\<open>except\<close> branch. The
  enrichment method is arbitrary here and may raise; \<open>enrich_method rt\<close> is one instance.
\<close>

theorem embedding_dimension:
  assumes "respects_frame enrich (embed_method rt)"
    and "\<forall>t w v w'. embeddings_create rt t w = (Inr v, w') \<longrightarrow> length v = 1536"
    and "1 \<le> batch_size"
    and "list_all (\<lambda>c. c < length (heap s)) (companies s)"
  shows "(\<forall>t s0. length (fst (generate_embedding rt t s0)) = 1536) \<and>
         (\<exists>s' new. batch_enrich_companies_with enrich (embed_method rt) batch_size s = Inr s' \<and>
            enriched_companies s' = enriched_companies s @ new \<and>
            length new = length (companies s) \<and>
            list_all (\<lambda>b. \<exists>v. (heap s' ! b) ''embedding'' = Some (embedding_value v) \<and>
                               length v = 1536) new)"
proof (intro conjI allI)
  fix t and s0 :: "'a pystate"
  show "length (fst (generate_embedding rt t s0)) = 1536"
    using assms(2)
    by (cases "embeddings_create rt t (world s0)")
       (auto simp: generate_embedding_def split: sum.splits)
next
  let ?P = "process_company enrich (embed_method rt)"
  have wf: "\<forall>c\<in>set (companies s). c < length (heap s)"
    using assms(4) by (simp add: list_all_iff)
  from batch_enrich_companies_with_result[OF assms(1,3) wf]
  obtain s' new where
    r: "batch_enrich_companies_with enrich (embed_method rt) batch_size s = Inr s'"
       "enriched_companies s' = enriched_companies s @ new"
       "length new = length (companies s)"
       "list_all2 (entry_of ?P s s') (companies s) new"
    by blast
  have "list_all (\<lambda>b. \<exists>v. (heap s' ! b) ''embedding'' = Some (embedding_value v) \<and>
                               length v = 1536) new"
    using r(4) by (rule list_all2_list_all) (rule entry_of_embedding[OF assms(1,2)])
  with r show "\<exists>s' new. batch_enrich_companies_with enrich (embed_method rt) batch_size s = Inr s' \<and>
            enriched_companies s' = enriched_companies s @ new \<and>
            length new = length (companies s) \<and>
            list_all (\<lambda>b. \<exists>v. (heap s' ! b) ''embedding'' = Some (embedding_value v) \<and>
                               length v = 1536) new"
    by blast
qed

text \<open>The theorem for the method of the class and a service that answers.\<close>

theorem embedding_dimension_witness:
  "respects_frame (enrich_method sample_env) (embed_method sample_env) \<and>
   (\<forall>t w. embeddings_create sample_env t w = (Inr (replicate 1536 1), w)) \<and>
   (1::int) \<le> 5 \<and>
   (list_all (\<lambda>c. c < length (heap two_companies_state)) (companies two_companies_state)) \<and>
   length (fst (generate_embedding sample_env (PStr ''query'') two_companies_state)) = 1536 \<and>
   (\<exists>s' new. batch_enrich_companies sample_env 5 two_companies_state = Inr s' \<and>
      enriched_companies s' = new \<and> length new = 2 \<and>
      list_all (\<lambda>b. \<exists>v. (heap s' ! b) ''embedding'' = Some (embedding_value v) \<and>
                         length v = 1536) new)"
proof -
  have h0: "respects_frame (enrich_method sample_env) (embed_method sample_env)"
    by (rule respects_frame_methods)
  have h1: "\<forall>t w v w'. embeddings_create sample_env t w = (Inr v, w') \<longrightarrow> length v = 1536"
    by (auto simp: sample_env_def)
  have h2: "(1::int) \<le> 5" by simp
  have h3: "list_all (\<lambda>c. c < length (heap two_companies_state)) (companies two_companies_state)"
    by (simp add: two_companies_state_def)
  have n: "length (companies two_companies_state) = 2"
    "enriched_companies two_companies_state = []"
    by (simp_all add: two_companies_state_def)
  have h1': "\<forall>t w. embeddings_create sample_env t w = (Inr (replicate 1536 1), w)"
    by (simp add: sample_env_def)
  show ?thesis
    using embedding_dimension[OF h0 h1 h2 h3] h0 h1' h2 h3
    unfolding batch_enrich_companies_def n by simp
qed

section \<open>The search\<close>

lemma semantic_search_threshold_empty:
  "enriched_companies s = [] \<Longrightarrow> semantic_search_threshold thr rt query top_k s = (Inr [], s)"
  by (simp add: semantic_search_threshold_def)

lemma semantic_search_threshold_failure:
  assumes "enriched_companies s \<noteq> []" and "fst (calculate_similarities rt query s) = Inl e"
  shows "semantic_search_threshold thr rt query top_k s =
           (Inr [], s\<lparr>world := snd (embedding_for rt (PStr query) (world s))\<rparr>)"
  using assms calculate_similarities_state[of rt query s]
  by (cases "calculate_similarities rt query s")
     (simp add: semantic_search_threshold_def semantic_search_try_def)

lemma semantic_search_threshold_success:
  assumes "enriched_companies s \<noteq> []" and "fst (calculate_similarities rt query s) = Inr sims"
  shows "\<exists>objs. semantic_search_threshold thr rt query top_k s =
            (Inr (slice_to (sort_reverse (map score objs)
                    [length (heap s)..<length (heap s) + length objs]) top_k),
             s\<lparr>world := snd (embedding_for rt (PStr query) (world s)), heap := heap s @ objs\<rparr>) \<and>
          list_all2 (\<lambda>obj (i, a). \<exists>d. obj = d(''similarity_score'' \<mapsto> PFloat (sims ! i)) \<and>
                                      (a < length (heap s) \<longrightarrow> d = heap s ! a))
            objs (filter (\<lambda>(i, a). thr < sims ! i) (enumerate 0 (enriched_companies s)))"
proof -
  let ?s1 = "s\<lparr>world := snd (embedding_for rt (PStr query) (world s))\<rparr>"
  have c: "calculate_similarities rt query s = (Inr sims, ?s1)"
    using assms(2) calculate_similarities_state[of rt query s]
    by (cases "calculate_similarities rt query s") simp
  from rank_results_eq[of thr sims top_k ?s1] obtain objs where
    "rank_results thr sims top_k ?s1 =
            (Inr (slice_to (sort_reverse (map score objs)
                    [length (heap ?s1)..<length (heap ?s1) + length objs]) top_k),
             ?s1\<lparr>heap := heap ?s1 @ objs\<rparr>)"
    "list_all2 (\<lambda>obj (i, a). \<exists>d. obj = d(''similarity_score'' \<mapsto> PFloat (sims ! i)) \<and>
                                      (a < length (heap ?s1) \<longrightarrow> d = heap ?s1 ! a))
            objs (filter (\<lambda>(i, a). thr < sims ! i) (enumerate 0 (enriched_companies ?s1)))"
    by blast
  then show ?thesis
    using assms(1) c
    by (intro exI[of _ objs]) (simp add: semantic_search_threshold_def semantic_search_try_def)
qed

lemma semantic_search_threshold_frame:
  "\<exists>rs objs. semantic_search_threshold thr rt query top_k s =
      (Inr rs, s\<lparr>world := world (snd (semantic_search_threshold thr rt query top_k s)),
                heap := heap s @ objs\<rparr>) \<and>
      list_all (\<lambda>b. length (heap s) \<le> b) rs"
proof (cases "enriched_companies s = []")
  case True
  then show ?thesis
    by (intro exI[of _ "[]"]) (simp add: semantic_search_threshold_empty)
next
  case False
  show ?thesis
  proof (cases "fst (calculate_similarities rt query s)")
    case (Inl e)
    from semantic_search_threshold_failure[OF False Inl] show ?thesis
      by (intro exI[of _ "[]"]) simp
  next
    case (Inr sims)
    from semantic_search_threshold_success[OF False Inr, of thr top_k] obtain objs where
      r: "semantic_search_threshold thr rt query top_k s =
            (Inr (slice_to (sort_reverse (map score objs)
                    [length (heap s)..<length (heap s) + length objs]) top_k),
             s\<lparr>world := snd (embedding_for rt (PStr query) (world s)), heap := heap s @ objs\<rparr>)"
      by blast
    have "set (slice_to (sort_reverse (map score objs)
                    [length (heap s)..<length (heap s) + length objs]) top_k)
          \<subseteq> set [length (heap s)..<length (heap s) + length objs]"
      using set_slice_to set_sort_reverse by (rule subset_trans)
    then have "list_all (\<lambda>b. length (heap s) \<le> b)
        (slice_to (sort_reverse (map score objs)
                    [length (heap s)..<length (heap s) + length objs]) top_k)"
      by (auto simp: list_all_iff)
    with r show ?thesis
      by (intro exI[of _ "slice_to (sort_reverse (map score objs)
                    [length (heap s)..<length (heap s) + length objs]) top_k"] exI[of _ objs]) simp
  qed
qed

text \<open>
  Claim C9. \<^verbatim>\<open>semantic_search\<close> leaves the processor as it was: the two list attributes hold
  the same references, and every dict object that existed before the call is unchanged (the
  store after the call is the store before it, followed by new objects). The results are
  among the new objects: the scores are written to copies only. A second search therefore
  starts from the same collection.
\<close>

theorem semantic_search_read_only:
  "companies (snd (semantic_search rt query top_k s)) = companies s \<and>
   enriched_companies (snd (semantic_search rt query top_k s)) = enriched_companies s \<and>
   prefix (heap s) (heap (snd (semantic_search rt query top_k s))) \<and>
   (\<exists>rs. fst (semantic_search rt query top_k s) = Inr rs \<and>
         list_all (\<lambda>b. length (heap s) \<le> b) rs) \<and>
   enriched_companies (snd (semantic_search rt query' top_k'
                              (snd (semantic_search rt query top_k s)))) = enriched_companies s \<and>
   prefix (heap s) (heap (snd (semantic_search rt query' top_k'
                              (snd (semantic_search rt query top_k s)))))"
proof -
  let ?s1 = "snd (semantic_search rt query top_k s)"
  let ?s2 = "snd (semantic_search rt query' top_k' ?s1)"
  from semantic_search_threshold_frame[of "3 / 10" rt query top_k s] obtain rs objs where
    a: "semantic_search rt query top_k s = (Inr rs, s\<lparr>world := world ?s1, heap := heap s @ objs\<rparr>)"
       "list_all (\<lambda>b. length (heap s) \<le> b) rs"
    unfolding semantic_search_def by blast
  from semantic_search_threshold_frame[of "3 / 10" rt query' top_k' ?s1] obtain rs' objs' where
    b: "semantic_search rt query' top_k' ?s1 =
          (Inr rs', ?s1\<lparr>world := world ?s2, heap := heap ?s1 @ objs'\<rparr>)"
    unfolding semantic_search_def by blast
  have s1: "?s1 = s\<lparr>world := world ?s1, heap := heap s @ objs\<rparr>"
    using a(1) by (metis snd_conv)
  have s2: "?s2 = ?s1\<lparr>world := world ?s2, heap := heap ?s1 @ objs'\<rparr>"
    using b by (metis snd_conv)
  have h1: "heap ?s1 = heap s @ objs" "companies ?s1 = companies s"
    "enriched_companies ?s1 = enriched_companies s"
    by (subst s1, simp)+
  have h2: "heap ?s2 = heap ?s1 @ objs'" "enriched_companies ?s2 = enriched_companies ?s1"
    by (subst s2, simp)+
  have f: "fst (semantic_search rt query top_k s) = Inr rs"
    using a(1) by (metis fst_conv)
  show ?thesis
    using f a(2) h1 h2 by (simp add: prefix_def)
qed


lemma sum_list_zero: "list_all (\<lambda>x. x = 0) v \<Longrightarrow> sum_list (map (\<lambda>x. x * x) v) = (0 :: real)"
  by (induction v) simp_all

lemma normalize_row_zero: "list_all (\<lambda>x. x = 0) v \<Longrightarrow> normalize_row v = v"
  by (simp add: normalize_row_def l2_norm_def sum_list_zero)

lemma dot_zero_left: "list_all (\<lambda>x. x = 0) a \<Longrightarrow> dot a b = 0"
proof (induction a arbitrary: b)
  case Nil
  then show ?case by (simp add: dot_def)
next
  case (Cons x a)
  then show ?case by (cases b) (simp_all add: dot_def)
qed

lemma dot_zero_right: "list_all (\<lambda>x. x = 0) b \<Longrightarrow> dot a b = 0"
proof (induction a arbitrary: b)
  case Nil
  then show ?case by (simp add: dot_def)
next
  case (Cons x a)
  then show ?case by (cases b) (simp_all add: dot_def)
qed

lemma cosine_row_zero_left: "list_all (\<lambda>x. x = 0) q \<Longrightarrow> cosine_row q e = 0"
  by (simp add: cosine_row_def normalize_row_zero dot_zero_left)

lemma cosine_row_zero_right: "list_all (\<lambda>x. x = 0) e \<Longrightarrow> cosine_row q e = 0"
  by (simp add: cosine_row_def normalize_row_zero dot_zero_right)

lemma similarity_zero_query: "list_all (\<lambda>x. x = 0) q \<Longrightarrow> similarity q d = 0"
  by (simp add: similarity_def cosine_row_zero_left split: option.splits)

lemma similarity_zero_embedding: "zero_embedding d \<Longrightarrow> similarity q d = 0"
  by (auto simp: similarity_def zero_embedding_def cosine_row_zero_right split: option.splits)

lemma no_matches:
  assumes "\<forall>i<length cs. \<not> thr < sims ! i"
  shows "filter (\<lambda>(i, a). thr < sims ! i) (enumerate 0 cs) = []"
  using assms by (auto simp: filter_empty_conv in_set_enumerate_eq)

text \<open>
  Claim C8. \<^verbatim>\<open>semantic_search\<close> always returns a list, whatever the state, the query and
  the service: the empty list for an empty collection (with the processor untouched), the
  empty list when computing the similarities raises (a record without \<^verbatim>\<open>embedding\<close>,
  embeddings that do not fit the query's), and the empty list when the embedding service
  fails for the query.
\<close>

theorem semantic_search_never_raises:
  "(\<exists>rs. fst (semantic_search rt query top_k s) = Inr rs) \<and>
   (enriched_companies s = [] \<longrightarrow> semantic_search rt query top_k s = (Inr [], s)) \<and>
   (isl (fst (calculate_similarities rt query s)) \<longrightarrow>
      fst (semantic_search rt query top_k s) = Inr []) \<and>
   (isl (fst (embeddings_create rt (PStr query) (world s))) \<longrightarrow>
      fst (semantic_search rt query top_k s) = Inr [])"
proof (intro conjI impI)
  show "\<exists>rs. fst (semantic_search rt query top_k s) = Inr rs"
    using semantic_search_threshold_frame[of "3 / 10" rt query top_k s]
    unfolding semantic_search_def by (metis fst_conv)
next
  assume "enriched_companies s = []"
  then show "semantic_search rt query top_k s = (Inr [], s)"
    by (simp add: semantic_search_def semantic_search_threshold_empty)
next
  assume "isl (fst (calculate_similarities rt query s))"
  then obtain e where e: "fst (calculate_similarities rt query s) = Inl e"
    by (auto simp: isl_def)
  show "fst (semantic_search rt query top_k s) = Inr []"
  proof (cases "enriched_companies s = []")
    case True
    then show ?thesis by (simp add: semantic_search_def semantic_search_threshold_empty)
  next
    case False
    from semantic_search_threshold_failure[OF False e] show ?thesis
      by (simp add: semantic_search_def)
  qed
next
  assume "isl (fst (embeddings_create rt (PStr query) (world s)))"
  then have q: "fst (embedding_for rt (PStr query) (world s)) = replicate 1536 0"
    by (cases "embeddings_create rt (PStr query) (world s)")
       (auto simp: embedding_for_def isl_def)
  show "fst (semantic_search rt query top_k s) = Inr []"
  proof (cases "enriched_companies s = []")
    case True
    then show ?thesis by (simp add: semantic_search_def semantic_search_threshold_empty)
  next
    case False
    show ?thesis
    proof (cases "fst (calculate_similarities rt query s)")
      case (Inl e)
      from semantic_search_threshold_failure[OF False Inl] show ?thesis
        by (simp add: semantic_search_def)
    next
      case (Inr sims)
      have "sims = map (\<lambda>a. similarity (replicate 1536 0) (heap s ! a)) (enriched_companies s)"
        using calculate_similarities_Inr[OF Inr] q by simp
      then have "\<forall>i<length (enriched_companies s). \<not> 3 / 10 < sims ! i"
        by (simp add: similarity_zero_query list_all_iff)
      then have none: "filter (\<lambda>(i, a). 3 / 10 < sims ! i) (enumerate 0 (enriched_companies s)) = []"
        by (rule no_matches)
      from semantic_search_threshold_success[OF False Inr, of "3 / 10" top_k] none
      show ?thesis
        by (auto simp: semantic_search_def slice_to_def sort_reverse_def)
    qed
  qed
qed

text \<open>
  Claim C6. The threshold is the literal \<^verbatim>\<open>0.3\<close> of line 189; \<open>semantic_search_threshold\<close> is
  the method with that literal as a parameter, and \<open>semantic_search\<close> its value at \<open>3/10\<close>.
  For the same processor state, service and query, a higher threshold never gives more
  results.
\<close>

theorem threshold_monotone:
  assumes "thr \<le> thr'"
  shows "\<exists>rs rs'. fst (semantic_search_threshold thr rt query top_k s) = Inr rs \<and>
                  fst (semantic_search_threshold thr' rt query top_k s) = Inr rs' \<and>
                  length rs' \<le> length rs"
proof (cases "enriched_companies s = []")
  case True
  then show ?thesis by (simp add: semantic_search_threshold_empty)
next
  case False
  show ?thesis
  proof (cases "fst (calculate_similarities rt query s)")
    case (Inl e)
    then show ?thesis by (simp add: semantic_search_threshold_failure[OF False])
  next
    case (Inr sims)
    let ?E = "enumerate 0 (enriched_companies s)"
    let ?n = "length (heap s)"
    from semantic_search_threshold_success[OF False Inr, of thr top_k] obtain objs where
      a: "fst (semantic_search_threshold thr rt query top_k s) =
            Inr (slice_to (sort_reverse (map score objs) [?n..<?n + length objs]) top_k)"
      and la: "length objs = length (filter (\<lambda>(i, a). thr < sims ! i) ?E)"
      by (auto dest: list_all2_lengthD)
    from semantic_search_threshold_success[OF False Inr, of thr' top_k] obtain objs' where
      b: "fst (semantic_search_threshold thr' rt query top_k s) =
            Inr (slice_to (sort_reverse (map score objs') [?n..<?n + length objs']) top_k)"
      and lb: "length objs' = length (filter (\<lambda>(i, a). thr' < sims ! i) ?E)"
      by (auto dest: list_all2_lengthD)
    have "length objs' \<le> length objs"
      unfolding la lb using assms by (intro length_filter_mono) auto
    then have "length (slice_to (sort_reverse (map score objs') [?n..<?n + length objs']) top_k)
        \<le> length (slice_to (sort_reverse (map score objs) [?n..<?n + length objs]) top_k)"
      by (auto simp: length_slice_to length_sort_reverse)
    with a b show ?thesis by simp
  qed
qed

lemma filter_enumerate:
  assumes "\<forall>i<length cs. M i = P (cs ! i)"
  shows "map snd (filter (\<lambda>(i, a). M i) (enumerate 0 cs)) = filter P cs"
  using assms
proof (induction cs rule: rev_induct)
  case Nil
  then show ?case by simp
next
  case (snoc c cs)
  have "\<forall>i<length cs. M i = P (cs ! i)"
    using snoc.prems by (auto simp: nth_append split: if_splits)
  moreover have "M (length cs) = P c"
    using snoc.prems by (auto simp: nth_append)
  ultimately show ?case
    using snoc.IH by (simp add: enumerate_append_eq)
qed

lemma matched_objects:
  assumes wf: "list_all (\<lambda>a. a < length (heap s)) (enriched_companies s)"
    and sims: "sims = map (\<lambda>a. similarity q (heap s ! a)) (enriched_companies s)"
    and r: "list_all2 (\<lambda>obj (i, a). \<exists>d. obj = d(''similarity_score'' \<mapsto> PFloat (sims ! i)) \<and>
                                      (a < length (heap s) \<longrightarrow> d = heap s ! a))
            objs (filter (\<lambda>(i, a). thr < sims ! i) (enumerate 0 (enriched_companies s)))"
  shows "objs = scored_matches thr q s"
proof -
  let ?cs = "enriched_companies s"
  let ?F = "filter (\<lambda>(i, a). thr < sims ! i) (enumerate 0 ?cs)"
  have "list_all2 (\<lambda>obj p. obj = with_score q (heap s ! snd p)) objs ?F"
    using r
  proof (rule list.rel_mono_strong)
    fix obj p
    assume p: "p \<in> set ?F"
      and R: "(case p of (i, a) \<Rightarrow> \<exists>d. obj = d(''similarity_score'' \<mapsto> PFloat (sims ! i)) \<and>
                                      (a < length (heap s) \<longrightarrow> d = heap s ! a))"
    obtain i a where ia: "p = (i, a)" by (cases p)
    from p ia have i: "i < length ?cs" "?cs ! i = a"
      by (auto simp: in_set_enumerate_eq)
    then have "a \<in> set ?cs" by auto
    with wf have "a < length (heap s)" by (simp add: list_all_iff)
    moreover have "sims ! i = similarity q (heap s ! a)"
      using sims i by simp
    ultimately show "obj = with_score q (heap s ! snd p)"
      using R ia by (auto simp: with_score_def)
  qed
  then have "objs = map (\<lambda>p. with_score q (heap s ! snd p)) ?F"
    by (simp add: list_all2_conv_all_nth list_eq_iff_nth_eq)
  also have "\<dots> = map (\<lambda>a. with_score q (heap s ! a)) (map snd ?F)"
    by (simp add: comp_def)
  also have "map snd ?F = filter (\<lambda>a. thr < similarity q (heap s ! a)) ?cs"
    by (rule filter_enumerate) (simp add: sims)
  finally show ?thesis
    by (simp add: scored_matches_def filter_map comp_def)
qed

lemma query_embedding_eq:
  "query_embedding rt query s = fst (embedding_for rt (PStr query) (world s))"
  by (simp add: query_embedding_def generate_embedding_eq)

lemma zero_embedding_with_score: "zero_embedding (with_score q d) = zero_embedding d"
  by (simp add: zero_embedding_def with_score_def embedding_of_def)

text \<open>
  Claim C4. For a non-empty collection of live records that all carry an embedding of the
  query embedding's dimension, and \<open>top_k \<ge> 0\<close>, the search returns the first \<open>top_k\<close> of
  \<open>ranked\<close>, where \<open>ranked\<close> consists exactly of the records whose similarity to the query
  embedding is above the threshold, each with that similarity as its \<^verbatim>\<open>similarity_score\<close>,
  in descending order of score, records of equal score in the order of the collection. So
  there are at most \<open>min top_k n\<close> results for a collection of \<open>n\<close> records. \<open>thr\<close> is the
  literal \<^verbatim>\<open>0.3\<close> of line 189.
\<close>

theorem search_results:
  assumes "enriched_companies s \<noteq> []"
    and "list_all (\<lambda>a. a < length (heap s)) (enriched_companies s)"
    and "query_embedding rt query s \<noteq> []"
    and "list_all (\<lambda>a. has_dimension (length (query_embedding rt query s)) (heap s ! a))
           (enriched_companies s)"
    and "0 \<le> top_k"
  shows "\<exists>rs s' ranked.
           semantic_search_threshold thr rt query top_k s = (Inr rs, s') \<and>
           map (\<lambda>b. heap s' ! b) rs = take (nat top_k) ranked \<and>
           mset ranked = mset (scored_matches thr (query_embedding rt query s) s) \<and>
           sorted_wrt (\<lambda>x y. score y \<le> score x) ranked \<and>
           (\<forall>v. filter (\<lambda>d. score d = v) ranked =
                filter (\<lambda>d. score d = v) (scored_matches thr (query_embedding rt query s) s)) \<and>
           length rs \<le> min (nat top_k) (length (enriched_companies s))"
proof -
  let ?q = "query_embedding rt query s"
  let ?n = "length (heap s)"
  let ?objs = "scored_matches thr ?q s"
  let ?ranked = "sort_key (\<lambda>d. - score d) ?objs"
  let ?rs = "slice_to (sort_reverse (map score ?objs) [?n..<?n + length ?objs]) top_k"
  let ?s' = "s\<lparr>world := snd (embedding_for rt (PStr query) (world s)), heap := heap s @ ?objs\<rparr>"
  have sims: "fst (calculate_similarities rt query s) =
      Inr (map (\<lambda>a. similarity ?q (heap s ! a)) (enriched_companies s))"
    using assms(1,3,4) unfolding query_embedding_eq by (rule calculate_similarities_success)
  from semantic_search_threshold_success[OF assms(1) sims, of thr top_k] obtain objs where
    r: "semantic_search_threshold thr rt query top_k s =
          (Inr (slice_to (sort_reverse (map score objs) [?n..<?n + length objs]) top_k),
           s\<lparr>world := snd (embedding_for rt (PStr query) (world s)), heap := heap s @ objs\<rparr>)"
    and m: "list_all2 (\<lambda>obj (i, a). \<exists>d. obj = d(''similarity_score'' \<mapsto>
                PFloat (map (\<lambda>a. similarity ?q (heap s ! a)) (enriched_companies s) ! i)) \<and>
                                      (a < length (heap s) \<longrightarrow> d = heap s ! a))
            objs (filter (\<lambda>(i, a). thr < map (\<lambda>a. similarity ?q (heap s ! a))
                                              (enriched_companies s) ! i)
                    (enumerate 0 (enriched_companies s)))"
    by blast
  have objs: "objs = ?objs"
    using assms(2) refl m by (rule matched_objects)
  have res: "semantic_search_threshold thr rt query top_k s = (Inr ?rs, ?s')"
    using r unfolding objs .
  have rs: "?rs = take (nat top_k) (sort_reverse (map score ?objs) [?n..<?n + length ?objs])"
    using assms(5) by (simp add: slice_to_def)
  have "map (\<lambda>b. heap ?s' ! b) ?rs =
      take (nat top_k) (map (\<lambda>b. (heap s @ ?objs) ! b)
        (sort_reverse (map score ?objs) [?n..<?n + length ?objs]))"
    unfolding rs by (simp add: take_map)
  then have contents: "map (\<lambda>b. heap ?s' ! b) ?rs = take (nat top_k) ?ranked"
    by (simp only: sorted_results_contents)
  have perm: "mset ?ranked = mset ?objs" by simp
  have "sorted (map (\<lambda>d. - score d) ?ranked)" by (rule sorted_sort_key)
  then have desc: "sorted_wrt (\<lambda>x y. score y \<le> score x) ?ranked"
    by (simp add: sorted_map)
  have stable: "filter (\<lambda>d. score d = v) ?ranked = filter (\<lambda>d. score d = v) ?objs" for v
    using sort_key_stable[of "\<lambda>d. - score d" "- v" ?objs] by simp
  have "length ?objs \<le> length (enriched_companies s)"
    by (simp add: scored_matches_def)
  then have len: "length ?rs \<le> min (nat top_k) (length (enriched_companies s))"
    unfolding rs by (simp add: length_sort_reverse)
  show ?thesis
  proof (intro exI[of _ ?rs] exI[of _ ?s'] exI[of _ ?ranked] conjI allI)
    show "semantic_search_threshold thr rt query top_k s = (Inr ?rs, ?s')" by (rule res)
    show "map (\<lambda>b. heap ?s' ! b) ?rs = take (nat top_k) ?ranked" by (rule contents)
    show "mset ?ranked = mset ?objs" by (rule perm)
    show "sorted_wrt (\<lambda>x y. score y \<le> score x) ?ranked" by (rule desc)
    show "filter (\<lambda>d. score d = v) ?ranked = filter (\<lambda>d. score d = v) ?objs" for v
      by (rule stable)
    show "length ?rs \<le> min (nat top_k) (length (enriched_companies s))" by (rule len)
  qed
qed

text \<open>
  Claim C5. For every threshold \<open>thr \<ge> 0\<close> (the code has \<open>3/10\<close>) and every query, each result
  is the scored copy of a record of the collection whose embedding is not the zero vector:
  a record with an all-zero embedding has similarity 0 to any query and is never returned.
\<close>

theorem zero_embedding_excluded:
  assumes "0 \<le> thr"
    and "list_all (\<lambda>a. a < length (heap s)) (enriched_companies s)"
  shows "\<exists>rs. fst (semantic_search_threshold thr rt query top_k s) = Inr rs \<and>
           list_all (\<lambda>b. \<not> zero_embedding
                            (heap (snd (semantic_search_threshold thr rt query top_k s)) ! b) \<and>
                         (\<exists>a\<in>set (enriched_companies s).
                            heap (snd (semantic_search_threshold thr rt query top_k s)) ! b =
                              with_score (query_embedding rt query s) (heap s ! a) \<and>
                            \<not> zero_embedding (heap s ! a))) rs"
proof (cases "enriched_companies s = []")
  case True
  then show ?thesis by (simp add: semantic_search_threshold_empty)
next
  case False
  show ?thesis
  proof (cases "fst (calculate_similarities rt query s)")
    case (Inl e)
    then show ?thesis by (simp add: semantic_search_threshold_failure[OF False])
  next
    case (Inr sims)
    let ?q = "query_embedding rt query s"
    let ?n = "length (heap s)"
    let ?objs = "scored_matches thr ?q s"
    let ?rs = "slice_to (sort_reverse (map score ?objs) [?n..<?n + length ?objs]) top_k"
    have sims: "sims = map (\<lambda>a. similarity ?q (heap s ! a)) (enriched_companies s)"
      using calculate_similarities_Inr[OF Inr] by (simp add: query_embedding_eq)
    from semantic_search_threshold_success[OF False Inr, of thr top_k] obtain objs where
      r: "semantic_search_threshold thr rt query top_k s =
            (Inr (slice_to (sort_reverse (map score objs) [?n..<?n + length objs]) top_k),
             s\<lparr>world := snd (embedding_for rt (PStr query) (world s)), heap := heap s @ objs\<rparr>)"
      and m: "list_all2 (\<lambda>obj (i, a). \<exists>d. obj = d(''similarity_score'' \<mapsto> PFloat (sims ! i)) \<and>
                                      (a < length (heap s) \<longrightarrow> d = heap s ! a))
            objs (filter (\<lambda>(i, a). thr < sims ! i) (enumerate 0 (enriched_companies s)))"
      by blast
    have objs: "objs = ?objs"
      using assms(2) sims m by (rule matched_objects)
    have "\<not> zero_embedding ((heap s @ ?objs) ! b) \<and>
          (\<exists>a\<in>set (enriched_companies s).
              (heap s @ ?objs) ! b = with_score ?q (heap s ! a) \<and> \<not> zero_embedding (heap s ! a))"
      if b: "b \<in> set ?rs" for b
    proof -
      have "b \<in> set (sort_reverse (map score ?objs) [?n..<?n + length ?objs])"
        using b set_slice_to[THEN subsetD] by fast
      then have "b \<in> set [?n..<?n + length ?objs]"
        using set_sort_reverse[THEN subsetD] by fast
      then obtain j where j: "b = ?n + j" "j < length ?objs"
        by (auto simp: le_iff_add)
      then have "(heap s @ ?objs) ! b = ?objs ! j"
        by (simp only: nth_append_length_plus)
      then have "(heap s @ ?objs) ! b \<in> set ?objs"
        using j(2) by (simp only: nth_mem)
      then have "(heap s @ ?objs) ! b \<in> with_score ?q `
          {d \<in> (\<lambda>a. heap s ! a) ` set (enriched_companies s). thr < similarity ?q d}"
        unfolding scored_matches_def by (simp only: set_map set_filter)
      then obtain a where a: "a \<in> set (enriched_companies s)"
        "thr < similarity ?q (heap s ! a)" "(heap s @ ?objs) ! b = with_score ?q (heap s ! a)"
        by blast
      have "\<not> zero_embedding (heap s ! a)"
        using a(2) assms(1) similarity_zero_embedding[of "heap s ! a" ?q] by auto
      with a show ?thesis
        by (auto simp: zero_embedding_with_score)
    qed
    moreover have "fst (semantic_search_threshold thr rt query top_k s) = Inr ?rs"
      "heap (snd (semantic_search_threshold thr rt query top_k s)) = heap s @ ?objs"
      using r unfolding objs by simp_all
    ultimately show ?thesis
      by (simp only: list_all_iff) blast

  qed
qed

lemma indexed_similarities:
  "calculate_similarities query_env ''schools'' indexed_state = (Inr [1, 3 / 5, 0], indexed_state)"
  by (simp add: calculate_similarities_def generate_embedding_def query_env_def indexed_state_def
      embedding_value_def cosine_similarity_def cosine_row_def normalize_row_def l2_norm_def dot_def)

lemma indexed_search:
  "fst (semantic_search query_env ''schools'' 2 indexed_state) = Inr [3, 4]"
  by (simp add: semantic_search_def semantic_search_threshold_def semantic_search_try_def
      indexed_similarities rank_results_def)
     (simp add: indexed_state_def enumerate_eq_zip upt_rec collect_result_def dict_copy_def dict_set_def
      score_key_def sort_reverse_def slice_to_def)


text \<open>
  The sample collection, queried for two results: the record that equals the query comes
  first, the record at similarity \<open>3/5\<close> second, the record with the zero embedding is left
  out.
\<close>

theorem search_results_witness:
  "enriched_companies indexed_state \<noteq> [] \<and>
   list_all (\<lambda>a. a < length (heap indexed_state)) (enriched_companies indexed_state) \<and>
   query_embedding query_env ''schools'' indexed_state \<noteq> [] \<and>
   list_all (\<lambda>a. has_dimension (length (query_embedding query_env ''schools'' indexed_state))
                      (heap indexed_state ! a)) (enriched_companies indexed_state) \<and>
   (0 :: int) \<le> 2 \<and>
   fst (semantic_search query_env ''schools'' 2 indexed_state) = Inr [3, 4] \<and>
   (\<exists>rs s' ranked.
      semantic_search query_env ''schools'' 2 indexed_state = (Inr rs, s') \<and>
      map (\<lambda>b. heap s' ! b) rs = take (nat 2) ranked \<and>
      mset ranked = mset (scored_matches (3 / 10) (query_embedding query_env ''schools'' indexed_state)
                            indexed_state) \<and>
      sorted_wrt (\<lambda>x y. score y \<le> score x) ranked \<and>
      (\<forall>v. filter (\<lambda>d. score d = v) ranked =
           filter (\<lambda>d. score d = v)
             (scored_matches (3 / 10) (query_embedding query_env ''schools'' indexed_state)
                indexed_state)) \<and>
      length rs \<le> min (nat 2) (length (enriched_companies indexed_state)))"
proof -
  have q: "query_embedding query_env ''schools'' s = [1, 0]" for s
    by (simp add: query_embedding_def generate_embedding_def query_env_def)
  have h1: "enriched_companies indexed_state \<noteq> []"
    by (simp add: indexed_state_def)
  have h2: "list_all (\<lambda>a. a < length (heap indexed_state)) (enriched_companies indexed_state)"
    by (simp add: indexed_state_def)
  have h3: "query_embedding query_env ''schools'' indexed_state \<noteq> []"
    by (simp add: q)
  have h4: "list_all (\<lambda>a. has_dimension (length (query_embedding query_env ''schools'' indexed_state))
                      (heap indexed_state ! a)) (enriched_companies indexed_state)"
    by (simp add: q indexed_state_def has_dimension_def embedding_of_def embedding_value_def)
  have h5: "(0 :: int) \<le> 2" by simp
  show ?thesis
    using search_results[OF h1 h2 h3 h4 h5, of "3 / 10"] h1 h2 h3 h4 indexed_search
    unfolding semantic_search_def by simp
qed

text \<open>
  The theorem for the sample collection, whose third record has the zero embedding.
\<close>

theorem zero_embedding_excluded_witness:
  "(0 :: real) \<le> 3 / 10 \<and>
   list_all (\<lambda>a. a < length (heap indexed_state)) (enriched_companies indexed_state) \<and>
   zero_embedding (heap indexed_state ! 2) \<and>
   (\<exists>rs. fst (semantic_search query_env ''schools'' 2 indexed_state) = Inr rs \<and>
      list_all (\<lambda>b. \<not> zero_embedding
                       (heap (snd (semantic_search query_env ''schools'' 2 indexed_state)) ! b) \<and>
                    (\<exists>a\<in>set (enriched_companies indexed_state).
                       heap (snd (semantic_search query_env ''schools'' 2 indexed_state)) ! b =
                         with_score (query_embedding query_env ''schools'' indexed_state)
                           (heap indexed_state ! a) \<and>
                       \<not> zero_embedding (heap indexed_state ! a))) rs)"
proof -
  have h1: "(0 :: real) \<le> 3 / 10" by simp
  have h2: "list_all (\<lambda>a. a < length (heap indexed_state)) (enriched_companies indexed_state)"
    by (simp add: indexed_state_def)
  have z: "zero_embedding (heap indexed_state ! 2)"
    by (simp add: indexed_state_def zero_embedding_def embedding_of_def embedding_value_def)
  show ?thesis
    using zero_embedding_excluded[OF h1 h2, of query_env "''schools''" 2] h1 h2 z
    unfolding semantic_search_def by simp
qed

text \<open>
  The theorem for the thresholds \<open>3/10\<close> and \<open>7/10\<close> on the sample collection.
\<close>

theorem threshold_monotone_witness:
  "(3 / 10 :: real) \<le> 7 / 10 \<and>
   (\<exists>rs rs'. fst (semantic_search_threshold (3 / 10) query_env ''schools'' 2 indexed_state) = Inr rs \<and>
      fst (semantic_search_threshold (7 / 10) query_env ''schools'' 2 indexed_state) = Inr rs' \<and>
      length rs' \<le> length rs)"
proof -
  have h: "(3 / 10 :: real) \<le> 7 / 10" by simp
  show ?thesis
    using threshold_monotone[OF h, of query_env "''schools''" 2 indexed_state] h by simp
qed

text \<open>
  The theorem for a processor with no enriched record, and for the sample collection with
  a service that fails: the zero vector of length 1536 does not fit the stored embeddings.
\<close>

theorem semantic_search_never_raises_witness:
  "enriched_companies two_companies_state = [] \<and>
   semantic_search failing_env ''schools'' 5 two_companies_state = (Inr [], two_companies_state) \<and>
   isl (fst (calculate_similarities failing_env ''schools'' indexed_state)) \<and>
   isl (fst (embeddings_create failing_env (PStr ''schools'') (world indexed_state))) \<and>
   fst (semantic_search failing_env ''schools'' 5 indexed_state) = Inr []"
proof -
  have h1: "enriched_companies two_companies_state = []"
    by (simp add: two_companies_state_def)
  have h2: "isl (fst (embeddings_create failing_env (PStr ''schools'') (world indexed_state)))"
    by (simp add: failing_env_def)
  have h3: "isl (fst (calculate_similarities failing_env ''schools'' indexed_state))"
    by (simp add: calculate_similarities_def generate_embedding_def failing_env_def
        indexed_state_def embedding_value_def cosine_similarity_def)
  show ?thesis
    using semantic_search_never_raises[of failing_env "''schools''" 5 two_companies_state]
      semantic_search_never_raises[of failing_env "''schools''" 5 indexed_state] h1 h2 h3
    by simp
qed

end
